theory Spec2Isabelle
  imports Main "HOL-Library.Log_Nat"
begin

section \<open>Go values used by the Bcut ASR client\<close>

subsection \<open>float64\<close>

text \<open>
  Go decodes every JSON number into a \<open>float64\<close>, and the client computes on them with
  float64 division, multiplication and addition. A finite double is modelled by its exact
  rational value; every arithmetic operation computes the exact rational result and rounds
  it to the nearest double, ties to even (53 significant bits, subnormals below
  \<open>2^-1022\<close>). Infinities and NaN are not modelled: \<open>encoding/json\<close> rejects numbers
  outside the finite range, and the operations of this client (division by 1000 or 500,
  multiplication by 39, addition of 0.105) cannot overflow from finite operands.
\<close>

type_synonym float64 = rat

definition pow2 :: "int \<Rightarrow> rat" where
  "pow2 e = (if 0 \<le> e then 2 ^ nat e else 1 / 2 ^ nat (- e))"

definition floor_log2 :: "rat \<Rightarrow> int" where
  "floor_log2 x = (let (a, b) = quotient_of x; k = bitlen a - bitlen b
                   in if pow2 k \<le> x then k else k - 1)"

definition round_half_even :: "rat \<Rightarrow> int" where
  "round_half_even x = (let f = \<lfloor>x\<rfloor>; d = x - of_int f
     in if d < 1 / 2 then f else if 1 / 2 < d then f + 1 else if even f then f else f + 1)"

definition round64 :: "rat \<Rightarrow> float64" where
  "round64 x = (if x = 0 then 0 else
     let a = \<bar>x\<bar>; e = max (floor_log2 a) (- 1022); u = pow2 (e - 52)
     in sgn x * of_int (round_half_even (a / u)) * u)"

definition f64_div :: "float64 \<Rightarrow> float64 \<Rightarrow> float64" where
  "f64_div a b = round64 (a / b)"

definition f64_mul :: "float64 \<Rightarrow> float64 \<Rightarrow> float64" where
  "f64_mul a b = round64 (a * b)"

definition f64_add :: "float64 \<Rightarrow> float64 \<Rightarrow> float64" where
  "f64_add a b = round64 (a + b)"

text \<open>The decimal literal \<open>d\<close> of a Go program or of a JSON text, as a float64.\<close>

definition f64_lit :: "rat \<Rightarrow> float64" where
  "f64_lit d = round64 d"

subsection \<open>Decoded JSON (\<open>interface{}\<close> values of \<open>encoding/json\<close>)\<close>

datatype json =
    JNull
  | JBool bool
  | JNum float64
  | JStr string
  | JArr "json list"
  | JObj "(string \<times> json) list"

type_synonym json_obj = "(string \<times> json) list"

text \<open>
  \<open>m[k]\<close> on a \<open>map[string]interface{}\<close> is \<open>map_of m k\<close>: a missing key gives the
  nil interface, here \<open>None\<close>. The comma-ok type assertions \<open>v.(T)\<close> follow.
\<close>

fun as_string :: "json option \<Rightarrow> string option" where
  "as_string (Some (JStr s)) = Some s"
| "as_string _ = None"

fun as_float64 :: "json option \<Rightarrow> float64 option" where
  "as_float64 (Some (JNum x)) = Some x"
| "as_float64 _ = None"

fun as_slice :: "json option \<Rightarrow> json list option" where
  "as_slice (Some (JArr xs)) = Some xs"
| "as_slice _ = None"

fun as_map :: "json option \<Rightarrow> json_obj option" where
  "as_map (Some (JObj m)) = Some m"
| "as_map _ = None"

text \<open>\<open>x, _ := v.(T)\<close>: the zero value of \<open>T\<close> when the assertion fails.\<close>

definition string_or_zero :: "json option \<Rightarrow> string" where
  "string_or_zero v = (case as_string v of Some s \<Rightarrow> s | None \<Rightarrow> [])"

definition float64_or_zero :: "json option \<Rightarrow> float64" where
  "float64_or_zero v = (case as_float64 v of Some x \<Rightarrow> x | None \<Rightarrow> 0)"

section \<open>SegmentMapper: \<open>makeSegments\<close>\<close>

record DataSegment =
  Text :: string
  StartTime :: float64
  EndTime :: float64

datatype log_line = WarnNoUtterances

definition TimeOffset :: float64 where
  "TimeOffset = f64_lit (105 / 1000)"

text \<open>The body of the \<open>range utterances\<close> loop; \<open>segments\<close> is the slice appended to.\<close>

fun makeSegments_loop :: "json list \<Rightarrow> DataSegment list \<Rightarrow> DataSegment list" where
  "makeSegments_loop [] segments = segments"
| "makeSegments_loop (u # us) segments =
     (case as_map (Some u) of
        None \<Rightarrow> makeSegments_loop us segments
      | Some utterance \<Rightarrow>
          let text = string_or_zero (map_of utterance ''transcript'');
              startTimeRaw = float64_or_zero (map_of utterance ''start_time'');
              endTimeRaw = float64_or_zero (map_of utterance ''end_time'');
              startTime = f64_add (f64_div startTimeRaw 1000) TimeOffset;
              endTime = f64_add (f64_div endTimeRaw 1000) TimeOffset
          in makeSegments_loop us
               (segments @ [\<lparr>Text = text, StartTime = startTime, EndTime = endTime\<rparr>]))"

text \<open>The result is the segment slice together with the warnings written to the log.\<close>

definition makeSegments :: "json_obj \<Rightarrow> DataSegment list \<times> log_line list" where
  "makeSegments result =
     (case as_slice (map_of result ''utterances'') of
        None \<Rightarrow> ([], [WarnNoUtterances])
      | Some utterances \<Rightarrow> (makeSegments_loop utterances [], []))"

text \<open>
  The shape of an utterance as the specification gives it: an object with a string
  \<open>transcript\<close> and numeric \<open>start_time\<close> and \<open>end_time\<close>.
\<close>

definition well_formed_utterance :: "json \<Rightarrow> bool" where
  "well_formed_utterance u =
     (case u of
        JObj m \<Rightarrow> as_string (map_of m ''transcript'') \<noteq> None
                  \<and> as_float64 (map_of m ''start_time'') \<noteq> None
                  \<and> as_float64 (map_of m ''end_time'') \<noteq> None
      | _ \<Rightarrow> False)"

fun is_object :: "json \<Rightarrow> bool" where
  "is_object (JObj m) = True"
| "is_object _ = False"

text \<open>The segment the loop body builds from one object entry.\<close>

definition segment_of :: "json \<Rightarrow> DataSegment" where
  "segment_of u =
     (case u of
        JObj m \<Rightarrow>
          \<lparr>Text = (case map_of m ''transcript'' of Some (JStr s) \<Rightarrow> s | _ \<Rightarrow> []),
           StartTime = f64_add (f64_div (case map_of m ''start_time'' of Some (JNum x) \<Rightarrow> x | _ \<Rightarrow> 0) 1000)
                         TimeOffset,
           EndTime = f64_add (f64_div (case map_of m ''end_time'' of Some (JNum x) \<Rightarrow> x | _ \<Rightarrow> 0) 1000)
                         TimeOffset\<rparr>
      | _ \<Rightarrow> \<lparr>Text = [], StartTime = 0, EndTime = 0\<rparr>)"

section \<open>The client, its environment and its trace\<close>

text \<open>
  A Go \<open>string\<close> and a \<open>[]byte\<close> are both sequences of bytes; an Isabelle \<open>char\<close> is
  one byte.
\<close>

type_synonym bytes = string

text \<open>
  Go's \<open>int\<close> is 64 bits wide on the platforms this client is built for; \<open>int64 x\<close> is the
  value an \<open>int\<close> holds after an arithmetic operation whose exact result is \<open>x\<close>.
\<close>

definition int64 :: "int \<Rightarrow> int" where
  "int64 x = (x + 2 ^ 63) mod 2 ^ 64 - 2 ^ 63"

text \<open>
  \<open>int(f)\<close> of a float64 truncates towards zero; outside the \<open>int\<close> range the conversion
  gives the smallest \<open>int\<close>, as the amd64 conversion instruction does.
\<close>

definition f64_to_int :: "float64 \<Rightarrow> int" where
  "f64_to_int x = (let t = (if 0 \<le> x then \<lfloor>x\<rfloor> else \<lceil>x\<rceil>)
                   in if - (2 ^ 63) \<le> t \<and> t < 2 ^ 63 then t else - (2 ^ 63))"

definition API_BASE_URL :: string where
  "API_BASE_URL = ''https://member.bilibili.com/x/bcut/rubick-interface''"

definition API_REQ_UPLOAD :: string where
  "API_REQ_UPLOAD = API_BASE_URL @ ''/resource/create''"

definition API_COMMIT_UPLOAD :: string where
  "API_COMMIT_UPLOAD = API_BASE_URL @ ''/resource/create/complete''"

definition API_CREATE_TASK :: string where
  "API_CREATE_TASK = API_BASE_URL @ ''/task''"

definition API_QUERY_RESULT :: string where
  "API_QUERY_RESULT = API_BASE_URL @ ''/task/result''"

definition ModelIDUpload :: string where
  "ModelIDUpload = ''8''"

definition ModelIDQuery :: string where
  "ModelIDQuery = ''7''"

definition MaxRetries :: nat where
  "MaxRetries = 500"

text \<open>Sleeps are counted in seconds: \<open>RetryBaseDelay\<close> is one second.\<close>

definition RetryBaseDelay :: nat where
  "RetryBaseDelay = 1"

definition RetryLongDelay :: nat where
  "RetryLongDelay = 3"

record BcutASR =
  AudioPath :: string
  FileBinary :: bytes
  UseCache :: bool
  taskID :: string
  etags :: "string list"
  inBossKey :: string
  resourceID :: string
  uploadID :: string
  uploadURLs :: "string list"
  perSize :: int
  clips :: nat
  downloadURL :: string

text \<open>
  The errors the client returns. \<open>ErrField f\<close> is the error whose message names the
  field \<open>f\<close>; the two panics are run-time panics of the Go program, which no caller
  recovers. The last three wrap the error of a phase of \<open>GetResult\<close>.
\<close>

datatype error =
    ErrCreateRequest
  | ErrSend
  | ErrRead
  | ErrJSON
  | ErrNoData
  | ErrField string
  | ErrUploadURL nat
  | ErrNoEtag nat
  | ErrEmptyResult
  | ErrResultParse
  | ErrTaskFailed float64
  | ErrTimeout
  | ErrCanceled
  | ErrCacheWrite
  | PanicIndexOutOfRange
  | PanicSliceBounds
  | ErrUploadFailed error
  | ErrCreateTaskFailed error
  | ErrQueryFailed error

text \<open>
  What the client does to the outside world, in order: every HTTP request it sends (with
  the payload fields that vary), every poll of the cancellation channel, every call of the
  progress callback, every sleep and every warning of the segment mapper.
\<close>

datatype request =
    ReqUpload nat
  | PutPart string bytes
  | CommitUpload string string string string
  | CreateTask string
  | QueryResult string

datatype event =
    ECheck
  | ERequest request
  | ECallback int
  | ESleep nat
  | EWarn log_line

text \<open>
  The answer to a JSON request: \<open>client.Do\<close> fails, reading the body fails, or the body
  arrives. The answer to a part upload: \<open>client.Do\<close> fails, or a response arrives with
  its \<open>Etag\<close> header (empty when absent) and the bytes read from its body.
\<close>

datatype http_reply = DoError | ReadError | Body bytes

datatype put_reply = PutError | PutResponse string bytes

text \<open>
  Library functions the client calls and that are not part of it: \<open>json.Unmarshal\<close> into
  a \<open>map[string]interface{}\<close> (\<open>None\<close> when it returns an error), whether
  \<open>http.NewRequest\<close> accepts a URL, MD5 with hex encoding, \<open>filepath.Join\<close>, and the
  JSON encoding and decoding of a segment slice.
\<close>

record lib =
  json_unmarshal :: "bytes \<Rightarrow> json_obj option"
  new_request_ok :: "string \<Rightarrow> bool"
  md5_hex :: "bytes \<Rightarrow> string"
  filepath_join :: "string \<Rightarrow> string \<Rightarrow> string"
  marshal_segments :: "DataSegment list \<Rightarrow> bytes"
  unmarshal_segments :: "bytes \<Rightarrow> DataSegment list option"

text \<open>
  One run's environment: the reply to each request (part uploads by part index, polls
  by iteration), the moment the context is cancelled, counted in events of the trace
  that precede it (\<open>None\<close>: never), and whether the cache directory can be written.
\<close>

record env =
  upload_reply :: http_reply
  put_replies :: "nat \<Rightarrow> put_reply"
  commit_reply :: http_reply
  task_reply :: http_reply
  query_replies :: "nat \<Rightarrow> http_reply"
  cancel_at :: "nat option"
  cache_writable :: bool

text \<open>A cache file exists or not; one that exists may fail to be read.\<close>

datatype cache_file = Unreadable | Content bytes

type_synonym fsys = "string \<Rightarrow> cache_file option"

section \<open>RemoteJobSubmitter: upload negotiation, part upload, commit, task creation\<close>

text \<open>
  Every method returns its error or the updated client, with the trace extended by what it
  did. A method that fails leaves fields of the client set by its earlier steps; that state
  is not returned, since \<open>GetResult\<close> returns as soon as a step fails and a later call sets
  every field again before reading it.

  \<open>requestUpload\<close>, \<open>commitUpload\<close> and \<open>createTask\<close> each build a request, send it,
  read the body and decode it, with the same four early returns; \<open>round_trip\<close> is that
  common prefix. The request is appended to the trace once \<open>client.Do\<close> is called.
  (\<open>json.Marshal\<close> of the payload maps, which hold strings and an \<open>int\<close> only, cannot
  fail.)
\<close>

definition round_trip ::
  "lib \<Rightarrow> string \<Rightarrow> request \<Rightarrow> http_reply \<Rightarrow> event list \<Rightarrow> (error + json_obj) \<times> event list" where
  "round_trip L url rq reply tr =
     (if \<not> new_request_ok L url then (Inl ErrCreateRequest, tr)
      else let tr1 = tr @ [ERequest rq] in
        case reply of
          DoError \<Rightarrow> (Inl ErrSend, tr1)
        | ReadError \<Rightarrow> (Inl ErrRead, tr1)
        | Body body \<Rightarrow>
            (case json_unmarshal L body of
               None \<Rightarrow> (Inl ErrJSON, tr1)
             | Some result \<Rightarrow> (Inr result, tr1)))"

text \<open>\<open>requestUpload\<close> of \<open>asr.go\<close> (and \<open>ccode.go\<close>): the loop over \<open>upload_urls\<close>.\<close>

fun uploadURLs_loop :: "json list \<Rightarrow> nat \<Rightarrow> string list \<Rightarrow> error + string list" where
  "uploadURLs_loop [] i urls = Inr urls"
| "uploadURLs_loop (url # rest) i urls =
     (case as_string (Some url) of
        Some urlStr \<Rightarrow> uploadURLs_loop rest (i + 1) (urls[i := urlStr])
      | None \<Rightarrow> Inl (ErrUploadURL i))"

definition requestUpload_fields :: "json_obj \<Rightarrow> BcutASR \<Rightarrow> error + BcutASR" where
  "requestUpload_fields data b =
     (case as_string (map_of data ''in_boss_key'') of
        None \<Rightarrow> Inl (ErrField ''in_boss_key'')
      | Some inBossKey' \<Rightarrow>
     (case as_string (map_of data ''resource_id'') of
        None \<Rightarrow> Inl (ErrField ''resource_id'')
      | Some resourceID' \<Rightarrow>
     (case as_string (map_of data ''upload_id'') of
        None \<Rightarrow> Inl (ErrField ''upload_id'')
      | Some uploadID' \<Rightarrow>
     (case as_float64 (map_of data ''per_size'') of
        None \<Rightarrow> Inl (ErrField ''per_size'')
      | Some perSize' \<Rightarrow>
     (case as_slice (map_of data ''upload_urls'') of
        None \<Rightarrow> Inl (ErrField ''upload_urls'')
      | Some uploadURLsIface \<Rightarrow>
     (case uploadURLs_loop uploadURLsIface 0 (replicate (length uploadURLsIface) []) of
        Inl err \<Rightarrow> Inl err
      | Inr urls \<Rightarrow>
          Inr (b\<lparr>inBossKey := inBossKey', resourceID := resourceID', uploadID := uploadID',
                 perSize := f64_to_int perSize', uploadURLs := urls,
                 clips := length urls\<rparr>)))))))"

definition requestUpload :: "lib \<Rightarrow> env \<Rightarrow> BcutASR \<Rightarrow> event list \<Rightarrow> (error + BcutASR) \<times> event list" where
  "requestUpload L E b tr =
     (case round_trip L API_REQ_UPLOAD (ReqUpload (length (FileBinary b))) (upload_reply E) tr of
        (Inl err, tr1) \<Rightarrow> (Inl err, tr1)
      | (Inr result, tr1) \<Rightarrow>
          (case as_map (map_of result ''data'') of
             None \<Rightarrow> (Inl ErrNoData, tr1)
           | Some data \<Rightarrow> (requestUpload_fields data b, tr1)))"

text \<open>
  \<open>requestUpload\<close> of \<open>main.go\<close> (and of the unnamed copy of it): a field that is
  missing or of the wrong type is left as it was, and an element of \<open>upload_urls\<close> that
  is not a string leaves the empty string at its index.
\<close>

fun uploadURLs_loop_main :: "json list \<Rightarrow> nat \<Rightarrow> string list \<Rightarrow> string list" where
  "uploadURLs_loop_main [] i urls = urls"
| "uploadURLs_loop_main (url # rest) i urls =
     (case as_string (Some url) of
        Some urlStr \<Rightarrow> uploadURLs_loop_main rest (i + 1) (urls[i := urlStr])
      | None \<Rightarrow> uploadURLs_loop_main rest (i + 1) urls)"

definition requestUpload_fields_main :: "json_obj \<Rightarrow> BcutASR \<Rightarrow> error + BcutASR" where
  "requestUpload_fields_main data b =
     (let b1 = (case as_string (map_of data ''in_boss_key'') of
                  Some v \<Rightarrow> b\<lparr>inBossKey := v\<rparr> | None \<Rightarrow> b);
          b2 = (case as_string (map_of data ''resource_id'') of
                  Some v \<Rightarrow> b1\<lparr>resourceID := v\<rparr> | None \<Rightarrow> b1);
          b3 = (case as_string (map_of data ''upload_id'') of
                  Some v \<Rightarrow> b2\<lparr>uploadID := v\<rparr> | None \<Rightarrow> b2);
          b4 = (case as_float64 (map_of data ''per_size'') of
                  Some v \<Rightarrow> b3\<lparr>perSize := f64_to_int v\<rparr> | None \<Rightarrow> b3)
      in case as_slice (map_of data ''upload_urls'') of
           None \<Rightarrow> Inl (ErrField ''upload_urls'')
         | Some uploadURLsIface \<Rightarrow>
             let urls = uploadURLs_loop_main uploadURLsIface 0
                          (replicate (length uploadURLsIface) [])
             in Inr (b4\<lparr>uploadURLs := urls, clips := length urls\<rparr>))"

definition requestUpload_main ::
  "lib \<Rightarrow> env \<Rightarrow> BcutASR \<Rightarrow> event list \<Rightarrow> (error + BcutASR) \<times> event list" where
  "requestUpload_main L E b tr =
     (case round_trip L API_REQ_UPLOAD (ReqUpload (length (FileBinary b))) (upload_reply E) tr of
        (Inl err, tr1) \<Rightarrow> (Inl err, tr1)
      | (Inr result, tr1) \<Rightarrow>
          (case as_map (map_of result ''data'') of
             None \<Rightarrow> (Inl ErrNoData, tr1)
           | Some data \<Rightarrow> (requestUpload_fields_main data b, tr1)))"

subsection \<open>BinaryUploader: \<open>uploadParts\<close>\<close>

text \<open>
  \<open>a[lo:hi]\<close> on a byte slice, for bounds already checked. The loop below checks them as
  the Go run time does: \<open>0 \<le> lo \<le> hi \<le> cap\<close>, where \<open>hi\<close> is at most the length by the
  clamp that precedes the slice expression.
\<close>

definition slice :: "bytes \<Rightarrow> int \<Rightarrow> int \<Rightarrow> bytes" where
  "slice a lo hi = take (nat hi - nat lo) (drop (nat lo) a)"

text \<open>The etag of a part: the \<open>Etag\<close> header, else the string field \<open>etag\<close> of the body.\<close>

definition etag_of :: "lib \<Rightarrow> string \<Rightarrow> bytes \<Rightarrow> string" where
  "etag_of L header body =
     (if header = [] then
        (case json_unmarshal L body of
           None \<Rightarrow> []
         | Some result \<Rightarrow> (case as_string (map_of result ''etag'') of Some etagVal \<Rightarrow> etagVal | None \<Rightarrow> []))
      else header)"

function uploadParts_loop ::
  "lib \<Rightarrow> env \<Rightarrow> BcutASR \<Rightarrow> nat \<Rightarrow> event list \<Rightarrow> (error + BcutASR) \<times> event list" where
  "uploadParts_loop L E b i tr =
     (if i < clips b then
        let startRange = int64 (int i * perSize b);
            endRange0 = int64 ((int i + 1) * perSize b);
            endRange = (if endRange0 > int (length (FileBinary b))
                        then int (length (FileBinary b)) else endRange0)
        in if \<not> i < length (uploadURLs b) then (Inl PanicIndexOutOfRange, tr)
           else if \<not> (0 \<le> startRange \<and> startRange \<le> endRange) then (Inl PanicSliceBounds, tr)
           else if \<not> new_request_ok L (uploadURLs b ! i) then (Inl ErrCreateRequest, tr)
           else
             let tr1 = tr @ [ERequest (PutPart (uploadURLs b ! i)
                                        (slice (FileBinary b) startRange endRange))]
             in case put_replies E i of
                  PutError \<Rightarrow> (Inl ErrSend, tr1)
                | PutResponse header body \<Rightarrow>
                    let etag = etag_of L header body
                    in if etag = [] then (Inl (ErrNoEtag i), tr1)
                       else uploadParts_loop L E (b\<lparr>etags := (etags b)[i := etag]\<rparr>) (i + 1) tr1
      else (Inr b, tr))"
  by pat_completeness auto
termination
  by (relation "measure (\<lambda>(L, E, b, i, tr). clips b - i)") auto

definition uploadParts ::
  "lib \<Rightarrow> env \<Rightarrow> BcutASR \<Rightarrow> event list \<Rightarrow> (error + BcutASR) \<times> event list" where
  "uploadParts L E b tr = uploadParts_loop L E (b\<lparr>etags := replicate (clips b) []\<rparr>) 0 tr"

declare uploadParts_loop.simps [simp del]

subsection \<open>\<open>buildEtags\<close>, \<open>commitUpload\<close>, \<open>upload\<close>, \<open>createTask\<close>\<close>

fun buildEtags_loop :: "string list \<Rightarrow> nat \<Rightarrow> string \<Rightarrow> string" where
  "buildEtags_loop [] i etagsStr = etagsStr"
| "buildEtags_loop (etag # rest) i etagsStr =
     buildEtags_loop rest (i + 1) ((if i > 0 then etagsStr @ '','' else etagsStr) @ etag)"

definition buildEtags :: "BcutASR \<Rightarrow> string" where
  "buildEtags b = buildEtags_loop (etags b) 0 []"

text \<open>The comma-joined string of the specification, for comparison.\<close>

fun comma_join :: "string list \<Rightarrow> string" where
  "comma_join [] = []"
| "comma_join [x] = x"
| "comma_join (x # y # ys) = x @ '','' @ comma_join (y # ys)"

definition commitUpload ::
  "lib \<Rightarrow> env \<Rightarrow> BcutASR \<Rightarrow> event list \<Rightarrow> (error + BcutASR) \<times> event list" where
  "commitUpload L E b tr =
     (case round_trip L API_COMMIT_UPLOAD
             (CommitUpload (inBossKey b) (resourceID b) (buildEtags b) (uploadID b))
             (commit_reply E) tr of
        (Inl err, tr1) \<Rightarrow> (Inl err, tr1)
      | (Inr result, tr1) \<Rightarrow>
          (case as_map (map_of result ''data'') of
             None \<Rightarrow> (Inl ErrNoData, tr1)
           | Some data \<Rightarrow>
               (case as_string (map_of data ''download_url'') of
                  Some downloadURL' \<Rightarrow> (Inr (b\<lparr>downloadURL := downloadURL'\<rparr>), tr1)
                | None \<Rightarrow> (Inl (ErrField ''download_url''), tr1))))"

definition upload ::
  "lib \<Rightarrow> env \<Rightarrow> BcutASR \<Rightarrow> event list \<Rightarrow> (error + BcutASR) \<times> event list" where
  "upload L E b tr =
     (case requestUpload L E b tr of
        (Inl err, tr1) \<Rightarrow> (Inl err, tr1)
      | (Inr b1, tr1) \<Rightarrow>
          (case uploadParts L E b1 tr1 of
             (Inl err, tr2) \<Rightarrow> (Inl err, tr2)
           | (Inr b2, tr2) \<Rightarrow> commitUpload L E b2 tr2))"

definition createTask ::
  "lib \<Rightarrow> env \<Rightarrow> BcutASR \<Rightarrow> event list \<Rightarrow> (error + BcutASR) \<times> event list" where
  "createTask L E b tr =
     (case round_trip L API_CREATE_TASK (CreateTask (downloadURL b)) (task_reply E) tr of
        (Inl err, tr1) \<Rightarrow> (Inl err, tr1)
      | (Inr result, tr1) \<Rightarrow>
          (case as_map (map_of result ''data'') of
             None \<Rightarrow> (Inl ErrNoData, tr1)
           | Some data \<Rightarrow>
               (case as_string (map_of data ''task_id'') of
                  Some taskID' \<Rightarrow> (Inr (b\<lparr>taskID := taskID'\<rparr>), tr1)
                | None \<Rightarrow> (Inl (ErrField ''task_id''), tr1))))"

section \<open>ResultPoller: \<open>queryResult\<close>\<close>

text \<open>
  \<open>ctx.Done()\<close> is ready at a check exactly when the context was cancelled before it,
  that is when the number of events that precede the cancellation is at most the number
  of events that precede the check. \<open>ErrCanceled\<close> is the value of \<open>ctx.Err()\<close> of a
  cancelled context.
\<close>

definition ctx_done :: "env \<Rightarrow> event list \<Rightarrow> bool" where
  "ctx_done E tr = (case cancel_at E of None \<Rightarrow> False | Some t \<Rightarrow> t \<le> length tr)"

text \<open>\<open>callback\<close> is \<open>True\<close> for a callback that is not nil.\<close>

definition call :: "bool \<Rightarrow> int \<Rightarrow> event list \<Rightarrow> event list" where
  "call callback percent tr = (if callback then tr @ [ECallback percent] else tr)"

definition progress_of :: "nat \<Rightarrow> int" where
  "progress_of i =
     (let progress = 60 + f64_to_int (f64_mul (f64_div (round64 (of_nat i)) (round64 (of_nat MaxRetries))) 39)
      in if progress > 99 then 99 else progress)"

definition sleepDuration :: "nat \<Rightarrow> nat" where
  "sleepDuration i =
     (let d1 = RetryBaseDelay;
          d2 = (if i > 20 then RetryBaseDelay * 2 else d1)
      in if i > 50 then RetryLongDelay else d2)"

definition query_url :: "BcutASR \<Rightarrow> string" where
  "query_url b = API_QUERY_RESULT @ ''?model_id='' @ ModelIDQuery @ ''&task_id='' @ taskID b"

text \<open>
  One iteration of the poll loop either returns from \<open>queryResult\<close> or goes on to the
  next iteration (by \<open>continue\<close> or by reaching the end of the body).
\<close>

datatype step = Return "error + json_obj" "event list" | Continue "event list"

definition queryResult_iter :: "lib \<Rightarrow> env \<Rightarrow> bool \<Rightarrow> BcutASR \<Rightarrow> nat \<Rightarrow> event list \<Rightarrow> step" where
  "queryResult_iter L E callback b i tr =
     (if ctx_done E tr then Return (Inl ErrCanceled) (tr @ [ECheck])
      else if \<not> new_request_ok L (query_url b) then Return (Inl ErrCreateRequest) (tr @ [ECheck])
      else
        let tr1 = tr @ [ECheck, ERequest (QueryResult (taskID b))] in
        case query_replies E i of
          DoError \<Rightarrow> Continue (tr1 @ [ESleep RetryBaseDelay])
        | ReadError \<Rightarrow> Continue (tr1 @ [ESleep RetryBaseDelay])
        | Body body \<Rightarrow>
        (case json_unmarshal L body of
          None \<Rightarrow> Continue (tr1 @ [ESleep RetryBaseDelay])
        | Some result \<Rightarrow>
        (case as_map (map_of result ''data'') of
          None \<Rightarrow> Continue (tr1 @ [ESleep RetryBaseDelay])
        | Some data \<Rightarrow>
        (case as_float64 (map_of data ''state'') of
          None \<Rightarrow> Continue (tr1 @ [ESleep RetryBaseDelay])
        | Some state \<Rightarrow>
            if state = 4 then
              (case as_string (map_of data ''result'') of
                 None \<Rightarrow> Return (Inl ErrEmptyResult) tr1
               | Some resultStr \<Rightarrow>
                   if resultStr = [] then Return (Inl ErrEmptyResult) tr1
                   else (case json_unmarshal L resultStr of
                           None \<Rightarrow> Return (Inl ErrResultParse) tr1
                         | Some resultData \<Rightarrow> Return (Inr resultData) tr1))
            else if state = 3 then Return (Inl (ErrTaskFailed state)) tr1
            else
              let tr2 = (if i mod 5 = 0 then call callback (progress_of i) tr1 else tr1)
              in Continue (tr2 @ [ESleep (sleepDuration i)])))))"

function queryResult_loop ::
  "lib \<Rightarrow> env \<Rightarrow> bool \<Rightarrow> BcutASR \<Rightarrow> nat \<Rightarrow> event list \<Rightarrow> (error + json_obj) \<times> event list" where
  "queryResult_loop L E callback b i tr =
     (if i < MaxRetries then
        (case queryResult_iter L E callback b i tr of
           Return r tr' \<Rightarrow> (r, tr')
         | Continue tr' \<Rightarrow> queryResult_loop L E callback b (i + 1) tr')
      else (Inl ErrTimeout, tr))"
  by pat_completeness auto
termination
  by (relation "measure (\<lambda>(L, E, callback, b, i, tr). MaxRetries - i)") auto

declare queryResult_loop.simps [simp del]

definition queryResult ::
  "lib \<Rightarrow> env \<Rightarrow> bool \<Rightarrow> BcutASR \<Rightarrow> event list \<Rightarrow> (error + json_obj) \<times> event list" where
  "queryResult L E callback b tr = queryResult_loop L E callback b 0 tr"

section \<open>Orchestrator: the cache and \<open>GetResult\<close>\<close>

definition GetCacheKey :: "lib \<Rightarrow> BcutASR \<Rightarrow> string \<Rightarrow> string" where
  "GetCacheKey L b serviceName = serviceName @ ''_'' @ md5_hex L (AudioPath b @ FileBinary b)"

definition LoadFromCache :: "lib \<Rightarrow> fsys \<Rightarrow> string \<Rightarrow> string \<Rightarrow> DataSegment list option" where
  "LoadFromCache L fs cacheDir cacheKey =
     (case fs (filepath_join L cacheDir (cacheKey @ ''.json'')) of
        None \<Rightarrow> None
      | Some Unreadable \<Rightarrow> None
      | Some (Content data) \<Rightarrow> unmarshal_segments L data)"

text \<open>
  \<open>SaveToCache\<close> fails when the directory cannot be created or the file cannot be
  written; the file system is then taken as unchanged.
\<close>

definition SaveToCache ::
  "lib \<Rightarrow> env \<Rightarrow> fsys \<Rightarrow> string \<Rightarrow> string \<Rightarrow> DataSegment list \<Rightarrow> error option \<times> fsys" where
  "SaveToCache L E fs cacheDir cacheKey segments =
     (if cache_writable E
      then (None, fs(filepath_join L cacheDir (cacheKey @ ''.json'')
                       \<mapsto> Content (marshal_segments L segments)))
      else (Some ErrCacheWrite, fs))"

text \<open>A panic is not an error value: \<open>fmt.Errorf\<close> never wraps it.\<close>

fun is_panic :: "error \<Rightarrow> bool" where
  "is_panic PanicIndexOutOfRange = True"
| "is_panic PanicSliceBounds = True"
| "is_panic _ = False"

definition wrap :: "(error \<Rightarrow> error) \<Rightarrow> error \<Rightarrow> error" where
  "wrap phase err = (if is_panic err then err else phase err)"

definition GetResult ::
  "lib \<Rightarrow> env \<Rightarrow> bool \<Rightarrow> BcutASR \<Rightarrow> fsys \<Rightarrow> (error + DataSegment list) \<times> fsys \<times> event list" where
  "GetResult L E callback b fs =
     (let cacheKey = GetCacheKey L b ''BcutASR'' in
      case (if UseCache b then LoadFromCache L fs ''./cache'' cacheKey else None) of
        Some segments \<Rightarrow> (Inr segments, fs, call callback 100 [])
      | None \<Rightarrow>
      (case upload L E b (call callback 20 []) of
        (Inl err, tr1) \<Rightarrow> (Inl (wrap ErrUploadFailed err), fs, tr1)
      | (Inr b1, tr1) \<Rightarrow>
      (case createTask L E b1 (call callback 50 tr1) of
        (Inl err, tr2) \<Rightarrow> (Inl (wrap ErrCreateTaskFailed err), fs, tr2)
      | (Inr b2, tr2) \<Rightarrow>
      (case queryResult L E callback b2 (call callback 60 tr2) of
        (Inl err, tr3) \<Rightarrow> (Inl (wrap ErrQueryFailed err), fs, tr3)
      | (Inr result, tr3) \<Rightarrow>
          let segments = fst (makeSegments result);
              tr4 = call callback 100 (tr3 @ map EWarn (snd (makeSegments result)))
          in if UseCache b \<and> length segments > 0
             then (Inr segments, snd (SaveToCache L E fs ''./cache'' cacheKey segments), tr4)
             else (Inr segments, fs, tr4)))))"

text \<open>Reading a trace.\<close>

fun is_query :: "event \<Rightarrow> bool" where
  "is_query (ERequest (QueryResult t)) = True"
| "is_query _ = False"

fun is_request :: "event \<Rightarrow> bool" where
  "is_request (ERequest r) = True"
| "is_request _ = False"

fun callbacks :: "event list \<Rightarrow> int list" where
  "callbacks [] = []"
| "callbacks (ECallback p # tr) = p # callbacks tr"
| "callbacks (e # tr) = callbacks tr"

fun sleeps :: "event list \<Rightarrow> nat list" where
  "sleeps [] = []"
| "sleeps (ESleep d # tr) = d # sleeps tr"
| "sleeps (e # tr) = sleeps tr"

section \<open>Notions used to state the properties\<close>

text \<open>
  The bytes of part \<open>i\<close> as the specification gives them: positions
  \<open>[i * P, min ((i + 1) * P, len))\<close> of the buffer.
\<close>

definition part_bytes :: "bytes \<Rightarrow> int \<Rightarrow> nat \<Rightarrow> bytes" where
  "part_bytes buf P i = map (\<lambda>k. buf ! k) [i * nat P ..< min ((i + 1) * nat P) (length buf)]"

text \<open>The request that uploads part \<open>i\<close>, and the etag the reply to it carries.\<close>

definition part_request :: "BcutASR \<Rightarrow> nat \<Rightarrow> event" where
  "part_request b i = ERequest (PutPart (uploadURLs b ! i) (part_bytes (FileBinary b) (perSize b) i))"

definition part_etag :: "lib \<Rightarrow> env \<Rightarrow> nat \<Rightarrow> string" where
  "part_etag L E i = (case put_replies E i of PutError \<Rightarrow> [] | PutResponse header body \<Rightarrow> etag_of L header body)"

text \<open>
  \<open>NewBcutASR\<close>, with the bytes of the audio file in place of the read of the file.
\<close>

definition NewBcutASR :: "string \<Rightarrow> bytes \<Rightarrow> bool \<Rightarrow> BcutASR" where
  "NewBcutASR audioPath fileBytes useCache =
     \<lparr>AudioPath = audioPath, FileBinary = fileBytes, UseCache = useCache,
      taskID = [], etags = [], inBossKey = [], resourceID = [], uploadID = [],
      uploadURLs = [], perSize = 0, clips = 0, downloadURL = []\<rparr>"

text \<open>
  Concrete library functions, replies and client states for the examples: no JSON text
  decodes, every URL is accepted, part \<open>i\<close> is answered with the header etag \<open>e0\<close>,
  \<open>e1\<close> or \<open>e2\<close>, and every other request fails to be sent.
\<close>

definition stub_lib :: lib where
  "stub_lib = \<lparr>json_unmarshal = (\<lambda>body. None), new_request_ok = (\<lambda>url. True),
               md5_hex = (\<lambda>data. data), filepath_join = (\<lambda>dir name. dir @ ''/'' @ name),
               marshal_segments = (\<lambda>segments. map (\<lambda>s. CHR ''s'') segments),
               unmarshal_segments = (\<lambda>data. None)\<rparr>"

definition stub_env :: env where
  "stub_env = \<lparr>upload_reply = DoError,
               put_replies = (\<lambda>i. PutResponse (if i = 0 then ''e0'' else if i = 1 then ''e1'' else ''e2'') []),
               commit_reply = DoError, task_reply = DoError, query_replies = (\<lambda>i. DoError),
               cancel_at = None, cache_writable = True\<rparr>"

definition example_asr :: "bytes \<Rightarrow> string list \<Rightarrow> int \<Rightarrow> BcutASR" where
  "example_asr fileBytes urls partSize =
     (NewBcutASR ''a.mp3'' fileBytes False)\<lparr>uploadURLs := urls, perSize := partSize, clips := length urls\<rparr>"

text \<open>
  What the reply to poll \<open>i\<close> amounts to: the numeric \<open>state\<close> with the \<open>data\<close> object
  that carries it, or nothing when the request fails, the body cannot be read or decoded,
  or \<open>data\<close> or \<open>state\<close> is missing or of the wrong type (a transient error). A state
  is terminal when it is 4 (done) or 3 (failed).
\<close>

definition poll_state :: "lib \<Rightarrow> env \<Rightarrow> nat \<Rightarrow> (float64 \<times> json_obj) option" where
  "poll_state L E i =
     (case query_replies E i of
        DoError \<Rightarrow> None
      | ReadError \<Rightarrow> None
      | Body body \<Rightarrow>
          (case json_unmarshal L body of
             None \<Rightarrow> None
           | Some result \<Rightarrow>
               (case as_map (map_of result ''data'') of
                  None \<Rightarrow> None
                | Some data \<Rightarrow>
                    (case as_float64 (map_of data ''state'') of
                       None \<Rightarrow> None
                     | Some state \<Rightarrow> Some (state, data)))))"

definition terminal :: "(float64 \<times> json_obj) option \<Rightarrow> bool" where
  "terminal s = (case s of None \<Rightarrow> False | Some (state, data) \<Rightarrow> state = 4 \<or> state = 3)"

text \<open>The outcome of a poll that observes state 4, from the \<open>result\<close> field of \<open>data\<close>.\<close>

definition done_result :: "lib \<Rightarrow> json_obj \<Rightarrow> error + json_obj" where
  "done_result L data =
     (case as_string (map_of data ''result'') of
        None \<Rightarrow> Inl ErrEmptyResult
      | Some resultStr \<Rightarrow>
          if resultStr = [] then Inl ErrEmptyResult
          else (case json_unmarshal L resultStr of
                  None \<Rightarrow> Inl ErrResultParse
                | Some resultData \<Rightarrow> Inr resultData))"

text \<open>
  The events of an iteration that is not cancelled and observes no terminal state: the
  check, the request, the progress callback on a pending state when \<open>i\<close> is a multiple
  of 5, and the sleep, of one second after a transient error and by the step schedule
  after a pending state.
\<close>

definition iter_events :: "lib \<Rightarrow> env \<Rightarrow> bool \<Rightarrow> BcutASR \<Rightarrow> nat \<Rightarrow> event list" where
  "iter_events L E callback b i =
     [ECheck, ERequest (QueryResult (taskID b))]
     @ (case poll_state L E i of
          None \<Rightarrow> [ESleep 1]
        | Some s \<Rightarrow> (if callback \<and> i mod 5 = 0 then [ECallback (progress_of i)] else [])
                    @ [ESleep (if i \<le> 20 then 1 else if i \<le> 50 then 2 else 3)])"

text \<open>
  Library functions and replies for the examples of whole runs: the bodies are short
  names that \<open>json_unmarshal\<close> decodes to the objects a real body would give. The
  negotiation answers with three URLs and a part size of 2, the polls answer pending twice
  and then done with one utterance; \<open>pending_env\<close> never finishes and fails to answer
  poll 30; \<open>cancel_env\<close> is cancelled after four events.
\<close>

definition example_lib :: lib where
  "example_lib = stub_lib
     \<lparr>json_unmarshal := (\<lambda>body.
        if body = ''upload'' then
          Some [(''data'', JObj [(''in_boss_key'', JStr ''k''), (''resource_id'', JStr ''r''),
                                 (''upload_id'', JStr ''u''), (''per_size'', JNum 2),
                                 (''upload_urls'', JArr [JStr ''u0'', JStr ''u1'', JStr ''u2''])])]
        else if body = ''commit'' then Some [(''data'', JObj [(''download_url'', JStr ''d'')])]
        else if body = ''task'' then Some [(''data'', JObj [(''task_id'', JStr ''t'')])]
        else if body = ''pending'' then Some [(''data'', JObj [(''state'', JNum 0)])]
        else if body = ''failed'' then Some [(''data'', JObj [(''state'', JNum 3)])]
        else if body = ''done'' then
          Some [(''data'', JObj [(''state'', JNum 4), (''result'', JStr ''hi'')])]
        else if body = ''done-empty'' then
          Some [(''data'', JObj [(''state'', JNum 4), (''result'', JStr ''none'')])]
        else if body = ''hi'' then
          Some [(''utterances'', JArr [JObj [(''transcript'', JStr ''hi''),
                                            (''start_time'', JNum 0), (''end_time'', JNum 500)]])]
        else if body = ''none'' then Some [(''utterances'', JArr [])]
        else None),
      unmarshal_segments := (\<lambda>data.
        if data = ''s''
        then Some [\<lparr>Text = ''hi'', StartTime = f64_lit (105 / 1000), EndTime = f64_lit (605 / 1000)\<rparr>]
        else None)\<rparr>"

definition example_env :: env where
  "example_env = stub_env
     \<lparr>upload_reply := Body ''upload'', commit_reply := Body ''commit'', task_reply := Body ''task'',
      query_replies := (\<lambda>i. if i < 2 then Body ''pending'' else Body ''done'')\<rparr>"

definition pending_env :: env where
  "pending_env = example_env\<lparr>query_replies := (\<lambda>i. if i = 30 then DoError else Body ''pending'')\<rparr>"


text \<open>
  \<open>empty_env\<close> answers the first poll with a finished task whose result holds no
  utterance; \<open>no_files\<close> is a cache directory without files.
\<close>

definition empty_env :: env where
  "empty_env = example_env\<lparr>query_replies := (\<lambda>i. Body ''done-empty'')\<rparr>"

definition no_files :: fsys where
  "no_files = Map.empty"

section \<open>Properties of the segment mapper\<close>

lemma string_or_zero_cases:
  "string_or_zero v = (case v of Some (JStr s) \<Rightarrow> s | _ \<Rightarrow> [])"
  by (cases v rule: as_string.cases) (simp_all add: string_or_zero_def)

lemma float64_or_zero_cases:
  "float64_or_zero v = (case v of Some (JNum x) \<Rightarrow> x | _ \<Rightarrow> 0)"
  by (cases v rule: as_float64.cases) (simp_all add: float64_or_zero_def)

lemma makeSegments_loop_map:
  "makeSegments_loop us segments = segments @ map segment_of (filter is_object us)"
proof (induction us arbitrary: segments)
  case Nil
  show ?case by simp
next
  case (Cons u us)
  show ?case
    by (cases u)
      (simp_all add: Cons.IH segment_of_def string_or_zero_cases float64_or_zero_cases Let_def)
qed

lemma makeSegments_array:
  "map_of result ''utterances'' = Some (JArr us) \<Longrightarrow>
   makeSegments result = (map segment_of (filter is_object us), [])"
  by (simp add: makeSegments_def makeSegments_loop_map)

lemma makeSegments_no_array:
  "as_slice (map_of result ''utterances'') = None \<Longrightarrow>
   makeSegments result = ([], [WarnNoUtterances])"
  by (simp add: makeSegments_def)

lemma nth_filter_take:
  "i < length xs \<Longrightarrow> P (xs ! i) \<Longrightarrow> filter P xs ! length (filter P (take i xs)) = xs ! i"
proof (induction xs arbitrary: i)
  case Nil
  then show ?case by simp
next
  case (Cons x xs)
  show ?case
  proof (cases i)
    case 0
    with Cons.prems show ?thesis by simp
  next
    case (Suc j)
    with Cons show ?thesis by simp
  qed
qed

lemma length_filter_take_less:
  "i < length xs \<Longrightarrow> P (xs ! i) \<Longrightarrow> length (filter P (take i xs)) < length (filter P xs)"
proof (induction xs arbitrary: i)
  case Nil
  then show ?case by simp
next
  case (Cons x xs)
  show ?case
  proof (cases i)
    case 0
    with Cons.prems show ?thesis by simp
  next
    case (Suc j)
    with Cons show ?thesis by simp
  qed
qed

lemma segment_at_entry:
  assumes "map_of result ''utterances'' = Some (JArr us)" "i < length us" "us ! i = JObj m"
  shows "fst (makeSegments result) ! length (filter is_object (take i us)) = segment_of (JObj m)"
proof -
  have obj: "is_object (us ! i)" using assms(3) by simp
  have "fst (makeSegments result) ! length (filter is_object (take i us))
          = segment_of (filter is_object us ! length (filter is_object (take i us)))"
    using assms(1) length_filter_take_less [of i us is_object, OF assms(2) obj]
    by (simp add: makeSegments_array)
  then show ?thesis
    using nth_filter_take [of i us is_object, OF assms(2) obj] assms(3) by simp
qed

text \<open>
  C6. In every \<open>utterances\<close> array, an utterance object with numeric millisecond
  \<open>start_time\<close> \<open>s\<close> and \<open>end_time\<close> \<open>e\<close> is mapped to a segment (the one at the
  position of the entry among the object entries) whose time fields are the float64
  values of \<open>s / 1000.0 + 0.105\<close> and \<open>e / 1000.0 + 0.105\<close>: a float64 division followed
  by a float64 addition of the constant. Provider times 1000 and 3500 give exactly the
  doubles written 1.105 and 3.605.
\<close>

theorem C6_time_offset:
  "(map_of result ''utterances'' = Some (JArr us) \<and> i < length us \<and> us ! i = JObj m
      \<and> map_of m ''start_time'' = Some (JNum s) \<and> map_of m ''end_time'' = Some (JNum e)
    \<longrightarrow> StartTime (fst (makeSegments result) ! length (filter is_object (take i us)))
          = f64_add (f64_div s 1000) (f64_lit (105 / 1000))
      \<and> EndTime (fst (makeSegments result) ! length (filter is_object (take i us)))
          = f64_add (f64_div e 1000) (f64_lit (105 / 1000)))
   \<and> makeSegments [(''utterances'',
       JArr [JObj [(''transcript'', JStr t), (''start_time'', JNum 1000), (''end_time'', JNum 3500)]])]
     = ([\<lparr>Text = t, StartTime = f64_lit (1105 / 1000), EndTime = f64_lit (3605 / 1000)\<rparr>], [])"
proof -
  have a: "f64_add (f64_div 1000 1000) (f64_lit (105 / 1000)) = f64_lit (1105 / 1000)"
    by code_simp
  have b: "f64_add (f64_div 3500 1000) (f64_lit (105 / 1000)) = f64_lit (3605 / 1000)"
    by code_simp
  have c: "makeSegments [(''utterances'',
       JArr [JObj [(''transcript'', JStr t), (''start_time'', JNum 1000), (''end_time'', JNum 3500)]])]
     = ([\<lparr>Text = t,
          StartTime = f64_add (f64_div 1000 1000) (f64_lit (105 / 1000)),
          EndTime = f64_add (f64_div 3500 1000) (f64_lit (105 / 1000))\<rparr>], [])"
    by (simp add: makeSegments_array segment_of_def TimeOffset_def)
  have d: "StartTime (fst (makeSegments result) ! length (filter is_object (take i us)))
          = f64_add (f64_div s 1000) (f64_lit (105 / 1000))
      \<and> EndTime (fst (makeSegments result) ! length (filter is_object (take i us)))
          = f64_add (f64_div e 1000) (f64_lit (105 / 1000))"
    if "map_of result ''utterances'' = Some (JArr us)" "i < length us" "us ! i = JObj m"
      "map_of m ''start_time'' = Some (JNum s)" "map_of m ''end_time'' = Some (JNum e)"
    using segment_at_entry [OF that(1,2,3)] that(4,5)
    by (simp add: segment_of_def TimeOffset_def)
  show ?thesis
    using c [unfolded a b] d by blast
qed

theorem C6_time_offset_witness:
  "StartTime (fst (makeSegments [(''utterances'',
       JArr [JNull, JObj [(''start_time'', JNum 0), (''end_time'', JNum 500), (''transcript'', JStr ''hi'')]])])
     ! 0) = f64_lit (105 / 1000)
   \<and> EndTime (fst (makeSegments [(''utterances'',
       JArr [JNull, JObj [(''start_time'', JNum 0), (''end_time'', JNum 500), (''transcript'', JStr ''hi'')]])])
     ! 0) = f64_lit (605 / 1000)"
proof -
  let ?m = "[(''start_time'', JNum 0), (''end_time'', JNum 500), (''transcript'', JStr ''hi'')]"
  let ?us = "[JNull, JObj ?m]"
  have z: "f64_add (f64_div 0 1000) (f64_lit (105 / 1000)) = f64_lit (105 / 1000)"
    by code_simp
  have h: "f64_add (f64_div 500 1000) (f64_lit (105 / 1000)) = f64_lit (605 / 1000)"
    by code_simp
  have k: "length (filter is_object (take 1 ?us)) = 0"
    by simp
  have p: "map_of [(''utterances'', JArr ?us)] ''utterances'' = Some (JArr ?us) \<and> 1 < length ?us
      \<and> ?us ! 1 = JObj ?m
      \<and> map_of ?m ''start_time'' = Some (JNum 0) \<and> map_of ?m ''end_time'' = Some (JNum 500)"
    by simp
  from C6_time_offset [of "[(''utterances'', JArr ?us)]" ?us 1 ?m 0 500] p
  show ?thesis
    unfolding k z h by blast
qed

text \<open>
  C7, as stated, fails: an entry that is an object is never skipped, whatever its fields.
  The array below holds one entry, whose \<open>transcript\<close> is a number and which has no time
  fields; it is not well formed, yet the mapper returns a segment for it.
\<close>

theorem C7_counterexample:
  "\<not> well_formed_utterance (JObj [(''transcript'', JNum 7)])
   \<and> fst (makeSegments [(''utterances'', JArr [JObj [(''transcript'', JNum 7)]])])
       = [\<lparr>Text = [], StartTime = TimeOffset, EndTime = TimeOffset\<rparr>]
   \<and> length (fst (makeSegments [(''utterances'', JArr [JObj [(''transcript'', JNum 7)]])]))
       \<noteq> length (filter well_formed_utterance [JObj [(''transcript'', JNum 7)]])"
proof -
  have z: "f64_add (f64_div 0 1000) TimeOffset = TimeOffset"
    by code_simp
  show ?thesis
    by (simp add: makeSegments_array segment_of_def well_formed_utterance_def z)
qed

text \<open>
  C7, amended. A result whose \<open>utterances\<close> field is missing or is not an array gives the
  empty sequence and one logged warning, never an error. For an \<open>utterances\<close> array the
  mapper returns, in order, one segment for every entry that is a JSON object and skips
  every other entry, so the output count is the number of object entries; a well-formed
  entry is among them and gives its transcript with its converted times.
\<close>

theorem C7_object_entries_kept:
  "(as_slice (map_of result ''utterances'') = None \<longrightarrow>
      makeSegments result = ([], [WarnNoUtterances]))
   \<and> (map_of result ''utterances'' = Some (JArr us) \<longrightarrow>
      makeSegments result = (map segment_of (filter is_object us), [])
      \<and> length (fst (makeSegments result)) = length (filter is_object us)
      \<and> (\<forall>u \<in> set us. well_formed_utterance u \<longrightarrow> is_object u))"
proof -
  have wf: "\<And>u. well_formed_utterance u \<Longrightarrow> is_object u"
    by (simp add: well_formed_utterance_def split: json.splits)
  show ?thesis
    by (auto simp: makeSegments_array makeSegments_no_array wf)
qed

theorem C7_object_entries_kept_witness:
  "makeSegments [(''utterances'', JStr ''none'')] = ([], [WarnNoUtterances])
   \<and> makeSegments [(''utterances'',
        JArr [JNum 3, JObj [(''transcript'', JStr ''hi''), (''start_time'', JNum 0), (''end_time'', JNum 500)],
              JObj [(''transcript'', JNum 7)]])]
     = ([\<lparr>Text = ''hi'', StartTime = f64_lit (105 / 1000), EndTime = f64_lit (605 / 1000)\<rparr>,
         \<lparr>Text = [], StartTime = f64_lit (105 / 1000), EndTime = f64_lit (105 / 1000)\<rparr>], [])"
proof -
  have z: "f64_add (f64_div 0 1000) (f64_lit (105 / 1000)) = f64_lit (105 / 1000)"
    by code_simp
  have h: "f64_add (f64_div 500 1000) (f64_lit (105 / 1000)) = f64_lit (605 / 1000)"
    by code_simp
  have n: "as_slice (map_of [(''utterances'', JStr ''none'')] ''utterances'') = None"
    by simp
  have m: "map_of [(''utterances'',
        JArr [JNum 3, JObj [(''transcript'', JStr ''hi''), (''start_time'', JNum 0), (''end_time'', JNum 500)],
              JObj [(''transcript'', JNum 7)]])] ''utterances''
      = Some (JArr [JNum 3, JObj [(''transcript'', JStr ''hi''), (''start_time'', JNum 0), (''end_time'', JNum 500)],
              JObj [(''transcript'', JNum 7)]])"
    by simp
  show ?thesis
    using C7_object_entries_kept [of "[(''utterances'', JStr ''none'')]" "[]"]
      C7_object_entries_kept [of "[(''utterances'',
        JArr [JNum 3, JObj [(''transcript'', JStr ''hi''), (''start_time'', JNum 0), (''end_time'', JNum 500)],
              JObj [(''transcript'', JNum 7)]])]"
         "[JNum 3, JObj [(''transcript'', JStr ''hi''), (''start_time'', JNum 0), (''end_time'', JNum 500)],
              JObj [(''transcript'', JNum 7)]]"] z h
    by (simp add: n segment_of_def TimeOffset_def)
qed

section \<open>Properties of the part upload\<close>

lemma int64_id: "0 \<le> x \<Longrightarrow> x < 2 ^ 63 \<Longrightarrow> int64 x = x"
  by (simp add: int64_def)

lemma int64_neg:
  assumes "2 ^ 63 \<le> x" "x < 2 ^ 64"
  shows "int64 x < 0"
proof -
  have "(x + 2 ^ 63) mod 2 ^ 64 = (x + 2 ^ 63 - 2 ^ 64) mod 2 ^ 64"
    by (metis minus_mod_self2)
  also have "\<dots> = x + 2 ^ 63 - 2 ^ 64"
    using assms by (intro mod_pos_pos_trivial) simp_all
  finally show ?thesis using assms by (simp add: int64_def)
qed

lemma slice_eq_map_nth:
  "0 \<le> lo \<Longrightarrow> lo \<le> hi \<Longrightarrow> hi \<le> int (length a) \<Longrightarrow>
   slice a lo hi = map (\<lambda>k. a ! k) [nat lo ..< nat hi]"
proof -
  assume a: "0 \<le> lo" "lo \<le> hi" "hi \<le> int (length a)"
  then have le: "nat lo \<le> nat hi" "nat hi \<le> length a"
    by simp_all
  show ?thesis
    unfolding slice_def
  proof (rule nth_equalityI)
    show "length (take (nat hi - nat lo) (drop (nat lo) a)) = length (map ((!) a) [nat lo..<nat hi])"
      using le by simp
  next
    fix i
    assume "i < length (take (nat hi - nat lo) (drop (nat lo) a))"
    then have i: "i < nat hi - nat lo"
      by simp
    then show "take (nat hi - nat lo) (drop (nat lo) a) ! i = map ((!) a) [nat lo..<nat hi] ! i"
      using le by simp
  qed
qed

lemma uploadParts_loop_done:
  "\<not> i < clips b \<Longrightarrow> uploadParts_loop L E b i tr = (Inr b, tr)"
  by (subst uploadParts_loop.simps) simp

lemma part_bytes_slice:
  assumes "0 \<le> P" "int i * P \<le> int (length buf)"
  shows "slice buf (int i * P) (if (int i + 1) * P > int (length buf) then int (length buf) else (int i + 1) * P)
           = part_bytes buf P i"
proof -
  let ?hi = "if (int i + 1) * P > int (length buf) then int (length buf) else (int i + 1) * P"
  have lo: "nat (int i * P) = i * nat P"
    using assms(1) by (simp add: nat_mult_distrib)
  have "nat ((int i + 1) * P) = (i + 1) * nat P"
    using assms(1) by (simp add: nat_mult_distrib nat_add_distrib)
  then have hi: "nat ?hi = min ((i + 1) * nat P) (length buf)"
    by (auto simp: min_def)
  have "int i * P \<le> (int i + 1) * P"
    using assms(1) by (simp add: algebra_simps)
  then have "slice buf (int i * P) ?hi = map (\<lambda>k. buf ! k) [nat (int i * P) ..< nat ?hi]"
    using assms by (intro slice_eq_map_nth) auto
  then show ?thesis
    unfolding part_bytes_def lo hi .
qed

lemma uploadParts_loop_step:
  assumes P: "0 \<le> perSize b" "perSize b < 2 ^ 63"
    and len: "int (length (FileBinary b)) < 2 ^ 63"
    and inv: "(int i - 1) * perSize b \<le> int (length (FileBinary b))"
    and lt: "i < clips b"
  shows "(\<not> i < length (uploadURLs b) \<and> uploadParts_loop L E b i tr = (Inl PanicIndexOutOfRange, tr))
       \<or> ((int (length (FileBinary b)) < int i * perSize b \<or> 2 ^ 63 \<le> (int i + 1) * perSize b)
          \<and> uploadParts_loop L E b i tr = (Inl PanicSliceBounds, tr))
       \<or> uploadParts_loop L E b i tr = (Inl ErrCreateRequest, tr)
       \<or> (\<exists>e. \<not> is_panic e \<and> uploadParts_loop L E b i tr = (Inl e, tr @ [part_request b i]))
       \<or> (int i * perSize b \<le> int (length (FileBinary b)) \<and> part_etag L E i \<noteq> []
          \<and> uploadParts_loop L E b i tr
              = uploadParts_loop L E (b\<lparr>etags := (etags b)[i := part_etag L E i]\<rparr>) (i + 1)
                  (tr @ [part_request b i]))"
proof -
  let ?len = "int (length (FileBinary b))"
  let ?s = "int i * perSize b" and ?e = "(int i + 1) * perSize b"
  have s0: "0 \<le> ?s" using P(1) by simp
  have se: "?s \<le> ?e" using P(1) by (simp add: algebra_simps)
  have "?s \<le> ?len + perSize b"
    using inv by (simp add: algebra_simps)
  then have s64: "?s < 2 ^ 64" using P(2) len by simp
  consider
      (noindex) "\<not> i < length (uploadURLs b)"
    | (swrap) "i < length (uploadURLs b)" "2 ^ 63 \<le> ?s"
    | (ewrap) "i < length (uploadURLs b)" "?s < 2 ^ 63" "2 ^ 63 \<le> ?e"
    | (beyond) "i < length (uploadURLs b)" "?e < 2 ^ 63" "?len < ?s"
    | (inside) "i < length (uploadURLs b)" "?e < 2 ^ 63" "?s \<le> ?len"
    using se by fastforce
  then show ?thesis
  proof cases
    case noindex
    then have "uploadParts_loop L E b i tr = (Inl PanicIndexOutOfRange, tr)"
      using lt by (subst uploadParts_loop.simps) (simp add: Let_def)
    then show ?thesis using noindex by blast
  next
    case swrap
    then have "int64 ?s < 0"
      using s64 by (intro int64_neg) simp_all
    then have "uploadParts_loop L E b i tr = (Inl PanicSliceBounds, tr)"
      using lt swrap(1) by (subst uploadParts_loop.simps) (simp add: Let_def)
    moreover have "?len < ?s" using swrap(2) len by simp
    ultimately show ?thesis by blast
  next
    case ewrap
    have "?e = ?s + perSize b" by (simp add: algebra_simps)
    then have "?e < 2 ^ 64" using ewrap(2) P(2) by simp
    then have e: "int64 ?e < 0"
      using ewrap(3) by (intro int64_neg) simp_all
    have s: "int64 ?s = ?s"
      using s0 ewrap(2) by (rule int64_id)
    have "uploadParts_loop L E b i tr = (Inl PanicSliceBounds, tr)"
      using lt ewrap(1) e s0 by (subst uploadParts_loop.simps) (simp add: Let_def s)
    then show ?thesis using ewrap(3) by blast
  next
    case beyond
    have e: "int64 ?e = ?e"
      using s0 se beyond(2) by (intro int64_id) simp_all
    have s: "int64 ?s = ?s"
      using s0 se beyond(2) by (intro int64_id) simp_all
    have "uploadParts_loop L E b i tr = (Inl PanicSliceBounds, tr)"
      using lt beyond(1,3) se by (subst uploadParts_loop.simps) (simp add: Let_def s e)
    then show ?thesis using beyond(3) by blast
  next
    case inside
    have e: "int64 ?e = ?e"
      using s0 se inside(2) by (intro int64_id) simp_all
    have s: "int64 ?s = ?s"
      using s0 se inside(2) by (intro int64_id) simp_all
    have ok: "0 \<le> ?s \<and> ?s \<le> (if ?e > ?len then ?len else ?e)"
      using s0 se inside(3) by simp
    have rq: "ERequest (PutPart (uploadURLs b ! i)
                (slice (FileBinary b) ?s (if ?e > ?len then ?len else ?e))) = part_request b i"
      unfolding part_request_def using part_bytes_slice [OF P(1) inside(3)] by simp
    have unfold: "uploadParts_loop L E b i tr =
        (if \<not> new_request_ok L (uploadURLs b ! i) then (Inl ErrCreateRequest, tr)
         else case put_replies E i of
                PutError \<Rightarrow> (Inl ErrSend, tr @ [part_request b i])
              | PutResponse header body \<Rightarrow>
                  if etag_of L header body = [] then (Inl (ErrNoEtag i), tr @ [part_request b i])
                  else uploadParts_loop L E (b\<lparr>etags := (etags b)[i := etag_of L header body]\<rparr>) (i + 1)
                         (tr @ [part_request b i]))"
      using lt inside(1) ok
      by (subst uploadParts_loop.simps) (simp add: Let_def s e rq split: put_reply.split del: One_nat_def)
    show ?thesis
    proof (cases "new_request_ok L (uploadURLs b ! i)")
      case False
      then show ?thesis using unfold by simp
    next
      case True
      show ?thesis
      proof (cases "put_replies E i")
        case PutError
        then show ?thesis using unfold True by simp
      next
        case (PutResponse header body)
        then show ?thesis
          using unfold True inside(3) by (cases "etag_of L header body = []") (simp_all add: part_etag_def)
      qed
    qed
  qed
qed

lemma part_request_etags [simp]: "part_request (b\<lparr>etags := es\<rparr>) = part_request b"
  by (rule ext) (simp add: part_request_def)

lemma uploadParts_loop_run:
  assumes "0 \<le> perSize b" "perSize b < 2 ^ 63" "int (length (FileBinary b)) < 2 ^ 63"
    and "(int i - 1) * perSize b \<le> int (length (FileBinary b))"
    and "i \<le> clips b" "length (etags b) = clips b"
    and "take i (etags b) = map (part_etag L E) [0..<i]"
    and "uploadParts_loop L E b i tr = (res, tr')"
  shows "\<exists>k. i \<le> k \<and> k \<le> clips b \<and> tr' = tr @ map (part_request b) [i..<k]
           \<and> (\<forall>b'. res = Inr b' \<longrightarrow>
                  k = clips b \<and> b' = b\<lparr>etags := map (part_etag L E) [0..<clips b]\<rparr>)"
  using assms
proof (induction "clips b - i" arbitrary: b i tr)
  case 0
  then have i: "i = clips b" by simp
  from "0.prems"(8) have "res = Inr b" "tr' = tr"
    by (simp_all add: uploadParts_loop_done i)
  moreover have "b = b\<lparr>etags := map (part_etag L E) [0..<clips b]\<rparr>"
    using "0.prems"(6,7) i by simp
  ultimately show ?case
    using i by (intro exI [of _ i]) simp
next
  case (Suc n)
  then have lt: "i < clips b" by simp
  let ?b2 = "b\<lparr>etags := (etags b)[i := part_etag L E i]\<rparr>"
  from uploadParts_loop_step [OF Suc.prems(1,2,3,4) lt, of L E tr]
  consider (stop0) e where "uploadParts_loop L E b i tr = (Inl e, tr)"
    | (stop1) e where "uploadParts_loop L E b i tr = (Inl e, tr @ [part_request b i])"
    | (go) "int i * perSize b \<le> int (length (FileBinary b))" "part_etag L E i \<noteq> []"
        "uploadParts_loop L E b i tr = uploadParts_loop L E ?b2 (i + 1) (tr @ [part_request b i])"
    by blast
  then show ?case
  proof cases
    case stop0
    with Suc.prems(8) have "res = Inl e" "tr' = tr" by simp_all
    then show ?thesis using lt by (intro exI [of _ i]) simp
  next
    case stop1
    with Suc.prems(8) have "res = Inl e" "tr' = tr @ [part_request b i]" by simp_all
    then show ?thesis using lt by (intro exI [of _ "i + 1"]) simp
  next
    case go
    have n: "n = clips ?b2 - (i + 1)" using Suc.hyps(2) by simp
    have tk: "take (i + 1) (etags ?b2) = map (part_etag L E) [0..<i + 1]"
      using Suc.prems(6,7) lt by (simp add: take_Suc_conv_app_nth)
    have run: "uploadParts_loop L E ?b2 (i + 1) (tr @ [part_request b i]) = (res, tr')"
      using go(3) Suc.prems(8) by simp
    from Suc.hyps(1) [OF n _ _ _ _ _ _ tk run] Suc.prems(1,2,3,6) go(1) lt
    obtain k where k: "i + 1 \<le> k" "k \<le> clips b"
        "tr' = (tr @ [part_request b i]) @ map (part_request b) [i + 1..<k]"
        "\<forall>b'. res = Inr b' \<longrightarrow> k = clips b \<and> b' = ?b2\<lparr>etags := map (part_etag L E) [0..<clips b]\<rparr>"
      by (auto simp: algebra_simps)
    have "[i..<k] = i # [i + 1..<k]"
      using k(1) by (simp add: upt_conv_Cons)
    then have "tr' = tr @ map (part_request b) [i..<k]"
      using k(3) by simp
    then show ?thesis
      using k(1,2,4) by (intro exI [of _ k]) simp
  qed
qed

lemma uploadParts_loop_no_panic:
  assumes "0 \<le> perSize b" "perSize b < 2 ^ 63" "int (length (FileBinary b)) < 2 ^ 62"
    and "clips b \<le> length (uploadURLs b)"
    and "(int (clips b) - 1) * perSize b \<le> int (length (FileBinary b))"
    and "i \<le> clips b"
    and "fst (uploadParts_loop L E b i tr) = Inl e"
  shows "\<not> is_panic e"
  using assms
proof (induction "clips b - i" arbitrary: b i tr)
  case 0
  then show ?case by (simp add: uploadParts_loop_done)
next
  case (Suc n)
  then have lt: "i < clips b" by simp
  let ?len = "int (length (FileBinary b))"
  let ?b2 = "b\<lparr>etags := (etags b)[i := part_etag L E i]\<rparr>"
  have len63: "?len < 2 ^ 63" using Suc.prems(3) by simp
  have "int i * perSize b \<le> (int (clips b) - 1) * perSize b"
    using lt Suc.prems(1) by (intro mult_right_mono) simp_all
  then have s: "int i * perSize b \<le> ?len"
    using Suc.prems(5) by simp
  have "(int i - 1) * perSize b \<le> int i * perSize b"
    using Suc.prems(1) by (intro mult_right_mono) simp_all
  then have inv: "(int i - 1) * perSize b \<le> ?len"
    using s by simp
  have e63: "(int i + 1) * perSize b < 2 ^ 63"
  proof (cases "i = 0")
    case True
    then show ?thesis using Suc.prems(2) by simp
  next
    case False
    then have "1 * perSize b \<le> int i * perSize b"
      using Suc.prems(1) by (intro mult_right_mono) simp_all
    then have "perSize b \<le> ?len" using s by simp
    moreover have "(int i + 1) * perSize b = int i * perSize b + perSize b"
      by (simp add: algebra_simps)
    ultimately show ?thesis using s Suc.prems(3) by simp
  qed
  from uploadParts_loop_step [OF Suc.prems(1,2) len63 inv lt, of L E tr] s e63 lt Suc.prems(4)
  consider "uploadParts_loop L E b i tr = (Inl ErrCreateRequest, tr)"
    | e' where "\<not> is_panic e'" "uploadParts_loop L E b i tr = (Inl e', tr @ [part_request b i])"
    | "uploadParts_loop L E b i tr = uploadParts_loop L E ?b2 (i + 1) (tr @ [part_request b i])"
    by fastforce
  then show ?case
  proof cases
    case 1
    then show ?thesis using Suc.prems(7) by auto
  next
    case 2
    then show ?thesis using Suc.prems(7) by auto
  next
    case 3
    have n: "n = clips ?b2 - (i + 1)" using Suc.hyps(2) by simp
    have f: "fst (uploadParts_loop L E ?b2 (i + 1) (tr @ [part_request b i])) = Inl e"
      using 3 Suc.prems(7) by simp
    show ?thesis
      using Suc.prems(1,2,3,4,5) lt
      by (intro Suc.hyps(1) [OF n _ _ _ _ _ _ f]) simp_all
  qed
qed

lemma buildEtags_loop_join:
  "buildEtags_loop es i s = s @ (if es = [] then [] else (if i > 0 then '','' else []) @ comma_join es)"
proof (induction es arbitrary: i s)
  case Nil
  show ?case by simp
next
  case (Cons e es)
  have "buildEtags_loop (e # es) i s
          = buildEtags_loop es (i + 1) ((if i > 0 then s @ '','' else s) @ e)"
    by simp
  also have "\<dots> = ((if i > 0 then s @ '','' else s) @ e)
                    @ (if es = [] then [] else '','' @ comma_join es)"
    by (subst Cons.IH) simp
  also have "\<dots> = s @ (if e # es = [] then []
                          else (if i > 0 then '','' else []) @ comma_join (e # es))"
    by (cases es) simp_all
  finally show ?case .
qed

lemma buildEtags_join: "buildEtags b = comma_join (etags b)"
  by (simp add: buildEtags_def buildEtags_loop_join)

lemma commitUpload_trace:
  "new_request_ok L API_COMMIT_UPLOAD \<Longrightarrow>
   snd (commitUpload L E b tr)
     = tr @ [ERequest (CommitUpload (inBossKey b) (resourceID b) (buildEtags b) (uploadID b))]"
  by (simp add: commitUpload_def round_trip_def Let_def
      split: http_reply.split option.split sum.split prod.split)

lemma uploadParts_example_3:
  "uploadParts stub_lib stub_env (example_asr ''abcde'' [''u0'', ''u1'', ''u2''] 2) []
     = (Inr ((example_asr ''abcde'' [''u0'', ''u1'', ''u2''] 2)\<lparr>etags := [''e0'', ''e1'', ''e2'']\<rparr>),
        [ERequest (PutPart ''u0'' ''ab''), ERequest (PutPart ''u1'' ''cd''), ERequest (PutPart ''u2'' ''e'')])"
  by (simp add: uploadParts_def uploadParts_loop.simps example_asr_def NewBcutASR_def stub_lib_def
      stub_env_def Let_def int64_def slice_def etag_of_def)

lemma uploadParts_example_panic:
  "uploadParts stub_lib stub_env (example_asr ''ab'' [''u0'', ''u1'', ''u2'', ''u3''] 1) []
     = (Inl PanicSliceBounds,
        [ERequest (PutPart ''u0'' ''a''), ERequest (PutPart ''u1'' ''b''), ERequest (PutPart ''u2'' [])])"
  by (simp add: uploadParts_def uploadParts_loop.simps example_asr_def NewBcutASR_def stub_lib_def
      stub_env_def Let_def int64_def slice_def etag_of_def)

lemma uploadParts_example_negative:
  "uploadParts stub_lib stub_env (example_asr ''ab'' [''u0''] (- 1)) [] = (Inl PanicSliceBounds, [])"
  by (simp add: uploadParts_def uploadParts_loop.simps example_asr_def NewBcutASR_def stub_lib_def
      stub_env_def Let_def int64_def slice_def etag_of_def)


section \<open>Properties of the upload negotiation\<close>

lemma uploadURLs_loop_length:
  "uploadURLs_loop us i urls = Inr urls' \<Longrightarrow> length urls' = length urls"
  by (induction us arbitrary: i urls) (auto split: option.splits)

lemma uploadURLs_loop_strings:
  "uploadURLs_loop us i urls = Inr urls' \<Longrightarrow> \<forall>u \<in> set us. as_string (Some u) \<noteq> None"
  by (induction us arbitrary: i urls) (auto split: option.splits)

lemma uploadURLs_loop_error:
  "uploadURLs_loop us i urls = Inl err \<Longrightarrow>
   \<exists>j<length us. err = ErrUploadURL (i + j) \<and> as_string (Some (us ! j)) = None"
proof (induction us arbitrary: i urls)
  case Nil
  then show ?case by simp
next
  case (Cons u us)
  show ?case
  proof (cases "as_string (Some u)")
    case None
    with Cons.prems have "err = ErrUploadURL (i + 0)" by simp
    with None show ?thesis by (intro exI [of _ 0]) simp
  next
    case (Some v)
    with Cons.prems have "uploadURLs_loop us (i + 1) (urls[i := v]) = Inl err" by simp
    from Cons.IH [OF this] obtain j where
      "j < length us" "err = ErrUploadURL (i + 1 + j)" "as_string (Some (us ! j)) = None"
      by blast
    then show ?thesis by (intro exI [of _ "Suc j"]) simp
  qed
qed

text \<open>
  \<open>requestUpload\<close> of \<open>asr.go\<close> succeeds only on a response in which every field has
  its type, and its error names a field (or an element of \<open>upload_urls\<close>) that is missing
  or of the wrong type.
\<close>

lemma requestUpload_fields_strict:
  assumes "requestUpload_fields data b = Inr b'"
  shows "as_string (map_of data ''in_boss_key'') = Some (inBossKey b')
     \<and> as_string (map_of data ''resource_id'') = Some (resourceID b')
     \<and> as_string (map_of data ''upload_id'') = Some (uploadID b')
     \<and> (\<exists>x. as_float64 (map_of data ''per_size'') = Some x \<and> perSize b' = f64_to_int x)
     \<and> (\<exists>us. as_slice (map_of data ''upload_urls'') = Some us
            \<and> (\<forall>u \<in> set us. as_string (Some u) \<noteq> None)
            \<and> length (uploadURLs b') = length us \<and> clips b' = length us)"
  using assms unfolding requestUpload_fields_def
  by (auto split: option.splits sum.splits
      dest: uploadURLs_loop_length uploadURLs_loop_strings)

lemma requestUpload_fields_error:
  assumes "requestUpload_fields data b = Inl err"
  shows "(err = ErrField ''in_boss_key'' \<and> as_string (map_of data ''in_boss_key'') = None)
       \<or> (err = ErrField ''resource_id'' \<and> as_string (map_of data ''resource_id'') = None)
       \<or> (err = ErrField ''upload_id'' \<and> as_string (map_of data ''upload_id'') = None)
       \<or> (err = ErrField ''per_size'' \<and> as_float64 (map_of data ''per_size'') = None)
       \<or> (err = ErrField ''upload_urls'' \<and> as_slice (map_of data ''upload_urls'') = None)
       \<or> (\<exists>us j. as_slice (map_of data ''upload_urls'') = Some us \<and> j < length us
             \<and> err = ErrUploadURL j \<and> as_string (Some (us ! j)) = None)"
  using assms unfolding requestUpload_fields_def
  by (auto split: option.splits sum.splits dest!: uploadURLs_loop_error)

text \<open>
  C4. The claim holds of \<open>requestUpload\<close> in \<open>asr.go\<close> and \<open>ccode.go\<close>; the copy in
  \<open>main.go\<close> breaks it. On the response \<open>{"data": {"upload_urls": ["u0", 1]}}\<close>,
  which lacks \<open>in_boss_key\<close>, \<open>resource_id\<close>, \<open>upload_id\<close> and \<open>per_size\<close> and whose
  second URL is a number, the copy in \<open>main.go\<close> succeeds and leaves the zero values in
  place, where \<open>asr.go\<close> returns the error that names \<open>in_boss_key\<close>.
\<close>

theorem C4_main_accepts_missing_fields:
  "requestUpload_fields_main [(''upload_urls'', JArr [JStr ''u0'', JNum 1])]
       (NewBcutASR ''a.mp3'' ''abcde'' False)
     = Inr ((NewBcutASR ''a.mp3'' ''abcde'' False)\<lparr>uploadURLs := [''u0'', []], clips := 2\<rparr>)
   \<and> requestUpload_fields [(''upload_urls'', JArr [JStr ''u0'', JNum 1])]
       (NewBcutASR ''a.mp3'' ''abcde'' False)
     = Inl (ErrField ''in_boss_key'')"
  by (simp add: requestUpload_fields_main_def requestUpload_fields_def NewBcutASR_def)

section \<open>The part upload: claims\<close>

text \<open>
  C5. For every buffer, part size \<open>P > 0\<close> and \<open>clips b\<close> upload URLs (\<open>P\<close> and the
  length of the buffer being values of a Go \<open>int\<close>): the requests \<open>uploadParts\<close> sends
  are, in order, the PUT of part \<open>i\<close> to URL \<open>i\<close> with exactly the bytes
  \<open>[i * P, min ((i + 1) * P, len))\<close>, for \<open>i = 0, 1, \<dots>\<close>; when it succeeds it has sent
  all of them, the etag of part \<open>i\<close> is stored at index \<open>i\<close>, and \<open>commitUpload\<close>
  sends the etags joined by commas in part order.
\<close>

theorem C5_parts_and_etags:
  assumes "0 < perSize b" "perSize b < 2 ^ 63" "int (length (FileBinary b)) < 2 ^ 63"
    and "uploadParts L E b tr = (res, tr')"
  shows "(\<exists>k\<le>clips b. tr' = tr @ map (\<lambda>i. ERequest (PutPart (uploadURLs b ! i)
                (part_bytes (FileBinary b) (perSize b) i))) [0..<k])
     \<and> (\<forall>b'. res = Inr b' \<longrightarrow>
           tr' = tr @ map (\<lambda>i. ERequest (PutPart (uploadURLs b ! i)
                (part_bytes (FileBinary b) (perSize b) i))) [0..<clips b]
         \<and> etags b' = map (part_etag L E) [0..<clips b]
         \<and> (\<forall>i<clips b. etags b' ! i = part_etag L E i)
         \<and> buildEtags b' = comma_join (map (part_etag L E) [0..<clips b])
         \<and> (new_request_ok L API_COMMIT_UPLOAD \<longrightarrow>
              snd (commitUpload L E b' tr')
                = tr' @ [ERequest (CommitUpload (inBossKey b) (resourceID b)
                           (comma_join (map (part_etag L E) [0..<clips b])) (uploadID b))]))"
proof -
  let ?b0 = "b\<lparr>etags := replicate (clips b) []\<rparr>"
  have run: "uploadParts_loop L E ?b0 0 tr = (res, tr')"
    using assms(4) by (simp add: uploadParts_def)
  have "\<exists>k. 0 \<le> k \<and> k \<le> clips ?b0 \<and> tr' = tr @ map (part_request ?b0) [0..<k]
           \<and> (\<forall>b'. res = Inr b' \<longrightarrow>
                  k = clips ?b0 \<and> b' = ?b0\<lparr>etags := map (part_etag L E) [0..<clips ?b0]\<rparr>)"
    using assms(1,2,3) by (intro uploadParts_loop_run [OF _ _ _ _ _ _ _ run]) simp_all
  then obtain k where k: "k \<le> clips b" "tr' = tr @ map (part_request b) [0..<k]"
      "\<forall>b'. res = Inr b' \<longrightarrow> k = clips b \<and> b' = b\<lparr>etags := map (part_etag L E) [0..<clips b]\<rparr>"
    by auto
  have pr: "part_request b = (\<lambda>i. ERequest (PutPart (uploadURLs b ! i)
                (part_bytes (FileBinary b) (perSize b) i)))"
    by (rule ext) (simp add: part_request_def)
  show ?thesis
  proof (intro conjI allI impI)
    show "\<exists>k\<le>clips b. tr' = tr @ map (\<lambda>i. ERequest (PutPart (uploadURLs b ! i)
                (part_bytes (FileBinary b) (perSize b) i))) [0..<k]"
      using k(1,2) pr by auto
  next
    fix b' assume "res = Inr b'"
    with k(3) have kc: "k = clips b" and b': "b' = b\<lparr>etags := map (part_etag L E) [0..<clips b]\<rparr>"
      by simp_all
    show "tr' = tr @ map (\<lambda>i. ERequest (PutPart (uploadURLs b ! i)
                (part_bytes (FileBinary b) (perSize b) i))) [0..<clips b]"
      using k(2) kc pr by simp
    show e: "etags b' = map (part_etag L E) [0..<clips b]"
      using b' by simp
    show "buildEtags b' = comma_join (map (part_etag L E) [0..<clips b])"
      using e by (simp add: buildEtags_join)
    { fix i assume "i < clips b"
      then show "etags b' ! i = part_etag L E i" using e by simp }
    { assume "new_request_ok L API_COMMIT_UPLOAD"
      then show "snd (commitUpload L E b' tr')
                = tr' @ [ERequest (CommitUpload (inBossKey b) (resourceID b)
                           (comma_join (map (part_etag L E) [0..<clips b])) (uploadID b))]"
        using b' by (simp add: commitUpload_trace buildEtags_join) }
  qed
qed

theorem C5_parts_and_etags_witness:
  "0 < perSize (example_asr ''abcde'' [''u0'', ''u1'', ''u2''] 2)
   \<and> snd (uploadParts stub_lib stub_env (example_asr ''abcde'' [''u0'', ''u1'', ''u2''] 2) [])
       = [ERequest (PutPart ''u0'' ''ab''), ERequest (PutPart ''u1'' ''cd''), ERequest (PutPart ''u2'' ''e'')]
   \<and> (\<exists>b'. fst (uploadParts stub_lib stub_env (example_asr ''abcde'' [''u0'', ''u1'', ''u2''] 2) []) = Inr b'
         \<and> etags b' = [''e0'', ''e1'', ''e2'']
         \<and> buildEtags b' = ''e0,e1,e2''
         \<and> snd (commitUpload stub_lib stub_env b'
                  [ERequest (PutPart ''u0'' ''ab''), ERequest (PutPart ''u1'' ''cd''),
                   ERequest (PutPart ''u2'' ''e'')])
             = [ERequest (PutPart ''u0'' ''ab''), ERequest (PutPart ''u1'' ''cd''),
                ERequest (PutPart ''u2'' ''e''), ERequest (CommitUpload [] [] ''e0,e1,e2'' [])])"
proof -
  let ?b = "example_asr ''abcde'' [''u0'', ''u1'', ''u2''] 2"
  have h: "0 < perSize ?b" "perSize ?b < 2 ^ 63" "int (length (FileBinary ?b)) < 2 ^ 63"
    by (simp_all add: example_asr_def NewBcutASR_def)
  have c: "clips ?b = 3" "inBossKey ?b = []" "resourceID ?b = []" "uploadID ?b = []"
    by (simp_all add: example_asr_def NewBcutASR_def)
  have u: "[0..<3] = [0, 1, 2]"
    by (simp add: upt_rec)
  have e: "map (part_etag stub_lib stub_env) [0, 1, 2] = [''e0'', ''e1'', ''e2'']"
    by (simp add: part_etag_def stub_env_def etag_of_def)
  have ok: "new_request_ok stub_lib API_COMMIT_UPLOAD"
    by (simp add: stub_lib_def)
  let ?b' = "?b\<lparr>etags := [''e0'', ''e1'', ''e2'']\<rparr>"
  let ?tr = "[ERequest (PutPart ''u0'' ''ab''), ERequest (PutPart ''u1'' ''cd''),
              ERequest (PutPart ''u2'' ''e'')]"
  from C5_parts_and_etags [OF h uploadParts_example_3]
  have t: "buildEtags ?b' = comma_join (map (part_etag stub_lib stub_env) [0..<clips ?b])"
    and cm: "snd (commitUpload stub_lib stub_env ?b' ?tr)
       = ?tr @ [ERequest (CommitUpload (inBossKey ?b) (resourceID ?b)
                  (comma_join (map (part_etag stub_lib stub_env) [0..<clips ?b])) (uploadID ?b))]"
    using ok by blast+
  have j: "comma_join (map (part_etag stub_lib stub_env) [0..<clips ?b]) = ''e0,e1,e2''"
    unfolding c u e by simp
  show ?thesis
    using h(1) t [unfolded j] cm [unfolded j c(2,3,4)] by (simp add: uploadParts_example_3)
qed

text \<open>
  C10, as stated, fails: with one upload URL and \<open>per_size = -1\<close> the condition
  \<open>(len(upload_urls) - 1) * perSize \<le> len(FileBinary)\<close> holds, and the slice expression
  \<open>FileBinary[0:-1]\<close> of the first part panics.
\<close>

theorem C10_counterexample:
  "(int (length (uploadURLs (example_asr ''ab'' [''u0''] (- 1)))) - 1)
       * perSize (example_asr ''ab'' [''u0''] (- 1))
     \<le> int (length (FileBinary (example_asr ''ab'' [''u0''] (- 1))))
   \<and> uploadParts stub_lib stub_env (example_asr ''ab'' [''u0''] (- 1)) [] = (Inl PanicSliceBounds, [])"
  using uploadParts_example_negative by (simp add: example_asr_def NewBcutASR_def)

text \<open>
  C10, amended. \<open>requestUpload\<close> takes the number of parts from the length of
  \<open>upload_urls\<close>. For every state with that number of parts whose part size is not negative
  and whose buffer is shorter than \<open>2^62\<close> bytes, if
  \<open>(len(upload_urls) - 1) * perSize \<le> len(FileBinary)\<close> then no index or slice
  expression of \<open>uploadParts\<close> panics. With four URLs, a part size of 1 and a buffer of
  two bytes (more URLs than \<open>ceil(2 / 1)\<close>) the lower bound of the fourth slice exceeds
  the length of the buffer and \<open>uploadParts\<close> panics, after three uploads.
\<close>

theorem C10_slice_bounds:
  "(requestUpload_fields data b0 = Inr b \<longrightarrow> clips b = length (uploadURLs b))
   \<and> (0 \<le> perSize b \<and> perSize b < 2 ^ 63 \<and> int (length (FileBinary b)) < 2 ^ 62
      \<and> clips b = length (uploadURLs b)
      \<and> (int (length (uploadURLs b)) - 1) * perSize b \<le> int (length (FileBinary b))
      \<longrightarrow> fst (uploadParts L E b tr) \<noteq> Inl PanicSliceBounds
        \<and> fst (uploadParts L E b tr) \<noteq> Inl PanicIndexOutOfRange)
   \<and> uploadParts stub_lib stub_env (example_asr ''ab'' [''u0'', ''u1'', ''u2'', ''u3''] 1) []
       = (Inl PanicSliceBounds,
          [ERequest (PutPart ''u0'' ''a''), ERequest (PutPart ''u1'' ''b''), ERequest (PutPart ''u2'' [])])"
proof -
  have a: "clips b = length (uploadURLs b)" if "requestUpload_fields data b0 = Inr b"
    using requestUpload_fields_strict [OF that] by auto
  have b: "\<not> is_panic err"
    if "0 \<le> perSize b" "perSize b < 2 ^ 63" "int (length (FileBinary b)) < 2 ^ 62"
      "clips b = length (uploadURLs b)"
      "(int (length (uploadURLs b)) - 1) * perSize b \<le> int (length (FileBinary b))"
      "fst (uploadParts L E b tr) = Inl err" for err
  proof -
    let ?b0 = "b\<lparr>etags := replicate (clips b) []\<rparr>"
    have "fst (uploadParts_loop L E ?b0 0 tr) = Inl err"
      using that(6) by (simp add: uploadParts_def)
    then show ?thesis
      using that(1-5) by (intro uploadParts_loop_no_panic [of ?b0 0 L E tr err]) simp_all
  qed
  show ?thesis
    using a b [of PanicSliceBounds] b [of PanicIndexOutOfRange] uploadParts_example_panic
    by auto
qed

theorem C10_slice_bounds_witness:
  "(int (length (uploadURLs (example_asr ''abcde'' [''u0'', ''u1'', ''u2''] 2))) - 1)
       * perSize (example_asr ''abcde'' [''u0'', ''u1'', ''u2''] 2)
     \<le> int (length (FileBinary (example_asr ''abcde'' [''u0'', ''u1'', ''u2''] 2)))
   \<and> fst (uploadParts stub_lib stub_env (example_asr ''abcde'' [''u0'', ''u1'', ''u2''] 2) [])
       \<noteq> Inl PanicSliceBounds
   \<and> fst (uploadParts stub_lib stub_env (example_asr ''abcde'' [''u0'', ''u1'', ''u2''] 2) [])
       \<noteq> Inl PanicIndexOutOfRange
   \<and> requestUpload_fields
        [(''in_boss_key'', JStr ''k''), (''resource_id'', JStr ''r''), (''upload_id'', JStr ''u''),
         (''per_size'', JNum 2), (''upload_urls'', JArr [JStr ''u0'', JStr ''u1'', JStr ''u2''])]
        (NewBcutASR ''a.mp3'' ''abcde'' False)
      = Inr ((example_asr ''abcde'' [''u0'', ''u1'', ''u2''] 2)
               \<lparr>inBossKey := ''k'', resourceID := ''r'', uploadID := ''u''\<rparr>)"
proof -
  let ?b = "example_asr ''abcde'' [''u0'', ''u1'', ''u2''] 2"
  let ?data = "[(''in_boss_key'', JStr ''k''), (''resource_id'', JStr ''r''), (''upload_id'', JStr ''u''),
         (''per_size'', JNum 2), (''upload_urls'', JArr [JStr ''u0'', JStr ''u1'', JStr ''u2''])]"
  have h: "0 \<le> perSize ?b \<and> perSize ?b < 2 ^ 63 \<and> int (length (FileBinary ?b)) < 2 ^ 62
      \<and> clips ?b = length (uploadURLs ?b)
      \<and> (int (length (uploadURLs ?b)) - 1) * perSize ?b \<le> int (length (FileBinary ?b))"
    by (simp add: example_asr_def NewBcutASR_def)
  have r: "requestUpload_fields ?data (NewBcutASR ''a.mp3'' ''abcde'' False)
      = Inr (?b\<lparr>inBossKey := ''k'', resourceID := ''r'', uploadID := ''u''\<rparr>)"
    by (simp add: requestUpload_fields_def example_asr_def NewBcutASR_def f64_to_int_def)
  from C10_slice_bounds [of ?data "NewBcutASR ''a.mp3'' ''abcde'' False"
      "?b\<lparr>inBossKey := ''k'', resourceID := ''r'', uploadID := ''u''\<rparr>" stub_lib stub_env "[]"]
    C10_slice_bounds [of ?data "NewBcutASR ''a.mp3'' ''abcde'' False" ?b stub_lib stub_env "[]"] h r
  show ?thesis
    by blast
qed

section \<open>Properties of the poll loop\<close>

lemma sleepDuration_schedule:
  "sleepDuration i = (if i \<le> 20 then 1 else if i \<le> 50 then 2 else 3)"
  by (simp add: sleepDuration_def RetryBaseDelay_def RetryLongDelay_def Let_def)

lemma iter_unfold:
  "queryResult_iter L E callback b i tr =
     (if ctx_done E tr then Return (Inl ErrCanceled) (tr @ [ECheck])
      else if \<not> new_request_ok L (query_url b) then Return (Inl ErrCreateRequest) (tr @ [ECheck])
      else case poll_state L E i of
             None \<Rightarrow> Continue (tr @ [ECheck, ERequest (QueryResult (taskID b)), ESleep 1])
           | Some (state, data) \<Rightarrow>
               if state = 4
               then Return (done_result L data) (tr @ [ECheck, ERequest (QueryResult (taskID b))])
               else if state = 3
               then Return (Inl (ErrTaskFailed state)) (tr @ [ECheck, ERequest (QueryResult (taskID b))])
               else Continue (tr @ [ECheck, ERequest (QueryResult (taskID b))]
                               @ (if callback \<and> i mod 5 = 0 then [ECallback (progress_of i)] else [])
                               @ [ESleep (if i \<le> 20 then 1 else if i \<le> 50 then 2 else 3)]))"
proof (cases "ctx_done E tr \<or> \<not> new_request_ok L (query_url b)")
  case True
  then show ?thesis by (auto simp: queryResult_iter_def)
next
  case False
  then have g: "\<not> ctx_done E tr" "new_request_ok L (query_url b)" by simp_all
  show ?thesis
  proof (cases "query_replies E i")
    case DoError
    then show ?thesis using g by (simp add: queryResult_iter_def poll_state_def RetryBaseDelay_def)
  next
    case ReadError
    then show ?thesis using g by (simp add: queryResult_iter_def poll_state_def RetryBaseDelay_def)
  next
    case (Body body)
    show ?thesis
    proof (cases "json_unmarshal L body")
      case None
      then show ?thesis
        using g Body by (simp add: queryResult_iter_def poll_state_def RetryBaseDelay_def)
    next
      case r: (Some result)
      show ?thesis
      proof (cases "as_map (map_of result ''data'')")
        case None
        then show ?thesis
          using g Body r by (simp add: queryResult_iter_def poll_state_def RetryBaseDelay_def)
      next
        case d: (Some data)
        show ?thesis
        proof (cases "as_float64 (map_of data ''state'')")
          case None
          then show ?thesis
            using g Body r d by (simp add: queryResult_iter_def poll_state_def RetryBaseDelay_def)
        next
          case (Some state)
          then show ?thesis
            using g Body r d
            by (simp add: queryResult_iter_def poll_state_def done_result_def call_def Let_def
                sleepDuration_schedule split: option.split)
        qed
      qed
    qed
  qed
qed


lemma iter_bad_url:
  "\<not> ctx_done E tr \<Longrightarrow> \<not> new_request_ok L (query_url b) \<Longrightarrow>
   queryResult_iter L E callback b i tr = Return (Inl ErrCreateRequest) (tr @ [ECheck])"
  by (simp add: iter_unfold)

lemma iter_nonterminal:
  "\<not> ctx_done E tr \<Longrightarrow> new_request_ok L (query_url b) \<Longrightarrow> \<not> terminal (poll_state L E i) \<Longrightarrow>
   queryResult_iter L E callback b i tr = Continue (tr @ iter_events L E callback b i)"
  by (cases "poll_state L E i") (auto simp: iter_unfold terminal_def iter_events_def)

lemma iter_done:
  "\<not> ctx_done E tr \<Longrightarrow> new_request_ok L (query_url b) \<Longrightarrow> poll_state L E i = Some (4, data) \<Longrightarrow>
   queryResult_iter L E callback b i tr
     = Return (done_result L data) (tr @ [ECheck, ERequest (QueryResult (taskID b))])"
  by (simp add: iter_unfold)

lemma iter_failed:
  "\<not> ctx_done E tr \<Longrightarrow> new_request_ok L (query_url b) \<Longrightarrow> poll_state L E i = Some (3, data) \<Longrightarrow>
   queryResult_iter L E callback b i tr
     = Return (Inl (ErrTaskFailed 3)) (tr @ [ECheck, ERequest (QueryResult (taskID b))])"
  by (simp add: iter_unfold)

lemma loop_done: "\<not> i < MaxRetries \<Longrightarrow> queryResult_loop L E callback b i tr = (Inl ErrTimeout, tr)"
  by (subst queryResult_loop.simps) simp

lemma loop_return:
  "i < MaxRetries \<Longrightarrow> queryResult_iter L E callback b i tr = Return r tr' \<Longrightarrow>
   queryResult_loop L E callback b i tr = (r, tr')"
  by (subst queryResult_loop.simps) simp

lemma loop_continue:
  "i < MaxRetries \<Longrightarrow> queryResult_iter L E callback b i tr = Continue tr' \<Longrightarrow>
   queryResult_loop L E callback b i tr = queryResult_loop L E callback b (i + 1) tr'"
  by (subst queryResult_loop.simps) simp

lemma ctx_done_never [simp]: "cancel_at E = None \<Longrightarrow> \<not> ctx_done E tr"
  by (simp add: ctx_done_def)

lemma loop_nonterminal_prefix:
  assumes "cancel_at E = None" "new_request_ok L (query_url b)"
    and "\<forall>j. i \<le> j \<and> j < k \<longrightarrow> \<not> terminal (poll_state L E j)"
    and "i \<le> k" "k \<le> MaxRetries"
  shows "queryResult_loop L E callback b i tr
           = queryResult_loop L E callback b k (tr @ concat (map (iter_events L E callback b) [i..<k]))"
  using assms(3,4)
proof (induction "k - i" arbitrary: i tr)
  case 0
  then show ?case by simp
next
  case (Suc n)
  then have lt: "i < k" by simp
  then have "queryResult_iter L E callback b i tr = Continue (tr @ iter_events L E callback b i)"
    using assms(1,2) Suc.prems(1) by (intro iter_nonterminal) simp_all
  then have "queryResult_loop L E callback b i tr
      = queryResult_loop L E callback b (i + 1) (tr @ iter_events L E callback b i)"
    using lt assms(5) by (intro loop_continue) simp_all
  also have "\<dots> = queryResult_loop L E callback b k
      ((tr @ iter_events L E callback b i) @ concat (map (iter_events L E callback b) [i + 1..<k]))"
    using Suc.hyps(2) Suc.prems lt by (intro Suc.hyps(1)) simp_all
  also have "(tr @ iter_events L E callback b i) @ concat (map (iter_events L E callback b) [i + 1..<k])
      = tr @ concat (map (iter_events L E callback b) [i..<k])"
    using lt by (simp add: upt_conv_Cons)
  finally show ?case .
qed

lemma sleeps_append [simp]: "sleeps (xs @ ys) = sleeps xs @ sleeps ys"
  by (induction xs rule: sleeps.induct) simp_all

lemma callbacks_append [simp]: "callbacks (xs @ ys) = callbacks xs @ callbacks ys"
  by (induction xs rule: callbacks.induct) simp_all

lemma sleeps_iter_events:
  "sleeps (iter_events L E callback b i)
     = [if poll_state L E i = None then 1 else if i \<le> 20 then 1 else if i \<le> 50 then 2 else 3]"
  by (simp add: iter_events_def split: option.split)

lemma queries_iter_events:
  "filter is_query (iter_events L E callback b i) = [ERequest (QueryResult (taskID b))]"
  by (simp add: iter_events_def split: option.split)

lemma sleeps_concat:
  "sleeps (concat (map (iter_events L E callback b) js))
     = map (\<lambda>i. if poll_state L E i = None then 1 else if i \<le> 20 then 1 else if i \<le> 50 then 2 else 3) js"
  by (induction js) (simp_all add: sleeps_iter_events)

lemma queries_concat:
  "filter is_query (concat (map (iter_events L E callback b) js))
     = replicate (length js) (ERequest (QueryResult (taskID b)))"
  by (induction js) (simp_all add: queries_iter_events)

lemma queryResult_exhausts:
  assumes "cancel_at E = None" "new_request_ok L (query_url b)"
    and "\<forall>i<MaxRetries. \<not> terminal (poll_state L E i)"
  shows "fst (queryResult L E callback b tr) = Inl ErrTimeout
     \<and> length (filter is_query (snd (queryResult L E callback b tr)))
         = length (filter is_query tr) + 500
     \<and> sleeps (snd (queryResult L E callback b tr))
         = sleeps tr @ map (\<lambda>i. if poll_state L E i = None then 1
                                 else if i \<le> 20 then 1 else if i \<le> 50 then 2 else 3) [0..<500]"
proof -
  have "queryResult L E callback b tr
      = queryResult_loop L E callback b MaxRetries
          (tr @ concat (map (iter_events L E callback b) [0..<MaxRetries]))"
    unfolding queryResult_def using assms
    by (intro loop_nonterminal_prefix) simp_all
  then have "queryResult L E callback b tr
      = (Inl ErrTimeout, tr @ concat (map (iter_events L E callback b) [0..<MaxRetries]))"
    by (simp add: loop_done)
  then show ?thesis
    by (simp add: sleeps_concat queries_concat MaxRetries_def)
qed





lemmas example_defs = example_lib_def example_env_def stub_lib_def stub_env_def NewBcutASR_def

text \<open>
  C1, amended. For every poll run that is never cancelled, whose request can be built and
  in which no iteration observes a terminal state (every iteration is a pending state or a
  transient error), the loop runs exactly \<open>MaxRetries\<close> (500) iterations, one request
  each, transient errors counting like pending states, and then fails with the timeout
  error. It sleeps after every iteration: one second after a transient error, whatever the
  iteration, and after a pending state 1 second on iterations 0-20, 2 seconds on 21-50 and
  3 seconds on 51-499.
\<close>

theorem C1_poll_exhausts:
  assumes "cancel_at E = None" "new_request_ok L (query_url b)"
    and "\<forall>i<MaxRetries. \<not> terminal (poll_state L E i)"
  shows "fst (queryResult L E callback b tr) = Inl ErrTimeout
     \<and> length (filter is_query (snd (queryResult L E callback b tr)))
         = length (filter is_query tr) + 500
     \<and> sleeps (snd (queryResult L E callback b tr))
         = sleeps tr @ map (\<lambda>i. if poll_state L E i = None then 1
                                 else if i \<le> 20 then 1 else if i \<le> 50 then 2 else 3) [0..<500]"
  using assms by (rule queryResult_exhausts)

lemma poll_state_stub: "poll_state stub_lib stub_env i = None"
  by (simp add: poll_state_def stub_env_def)

lemma poll_state_pending:
  "poll_state example_lib pending_env i
     = (if i = 30 then None else Some (0, [(''state'', JNum 0)]))"
  by (simp add: poll_state_def example_defs pending_env_def)

text \<open>
  C1, as stated, fails on the sleeps: when every poll is a network failure the loop still
  runs out after 500 iterations, but it sleeps one second after iteration 30 and after
  iteration 499, not two and three.
\<close>

theorem C1_counterexample:
  "fst (queryResult stub_lib stub_env False (NewBcutASR ''a.mp3'' ''abcde'' False) []) = Inl ErrTimeout
   \<and> sleeps (snd (queryResult stub_lib stub_env False (NewBcutASR ''a.mp3'' ''abcde'' False) [])) ! 30 = 1
   \<and> sleeps (snd (queryResult stub_lib stub_env False (NewBcutASR ''a.mp3'' ''abcde'' False) [])) ! 499 = 1"
proof -
  have "cancel_at stub_env = None" "new_request_ok stub_lib (query_url (NewBcutASR ''a.mp3'' ''abcde'' False))"
    by (simp_all add: stub_env_def stub_lib_def)
  moreover have "\<forall>i<MaxRetries. \<not> terminal (poll_state stub_lib stub_env i)"
    by (simp add: poll_state_stub terminal_def)
  ultimately show ?thesis
    using queryResult_exhausts [of stub_env stub_lib "NewBcutASR ''a.mp3'' ''abcde'' False" False "[]"]
    by (simp add: poll_state_stub)
qed

theorem C1_poll_exhausts_witness:
  "fst (queryResult example_lib pending_env False (NewBcutASR ''a.mp3'' ''abcde'' False) []) = Inl ErrTimeout
   \<and> length (filter is_query (snd (queryResult example_lib pending_env False
                (NewBcutASR ''a.mp3'' ''abcde'' False) []))) = 500
   \<and> sleeps (snd (queryResult example_lib pending_env False (NewBcutASR ''a.mp3'' ''abcde'' False) [])) ! 20 = 1
   \<and> sleeps (snd (queryResult example_lib pending_env False (NewBcutASR ''a.mp3'' ''abcde'' False) [])) ! 21 = 2
   \<and> sleeps (snd (queryResult example_lib pending_env False (NewBcutASR ''a.mp3'' ''abcde'' False) [])) ! 30 = 1
   \<and> sleeps (snd (queryResult example_lib pending_env False (NewBcutASR ''a.mp3'' ''abcde'' False) [])) ! 50 = 2
   \<and> sleeps (snd (queryResult example_lib pending_env False (NewBcutASR ''a.mp3'' ''abcde'' False) [])) ! 51 = 3
   \<and> sleeps (snd (queryResult example_lib pending_env False (NewBcutASR ''a.mp3'' ''abcde'' False) [])) ! 499 = 3"
proof -
  have "cancel_at pending_env = None"
    "new_request_ok example_lib (query_url (NewBcutASR ''a.mp3'' ''abcde'' False))"
    by (simp_all add: example_defs pending_env_def)
  moreover have "\<forall>i<MaxRetries. \<not> terminal (poll_state example_lib pending_env i)"
    by (simp add: poll_state_pending terminal_def)
  ultimately show ?thesis
    using C1_poll_exhausts [of pending_env example_lib "NewBcutASR ''a.mp3'' ''abcde'' False" False "[]"]
    by (simp add: poll_state_pending)
qed

text \<open>
  C2. An iteration that is reached (\<open>i < MaxRetries\<close>), is not cancelled at its top and
  whose reply decodes to a \<open>data\<close> object with a numeric \<open>state\<close> ends the poll at once
  when the state is terminal: the trace ends with that iteration's request. On state 4
  the outcome is the decoded \<open>result\<close> string, or the fatal error for a missing,
  mistyped or empty \<open>result\<close>, or the fatal error for one that does not decode; on state
  3 the outcome is the error that carries the state. In a run that is never cancelled and
  observes nothing terminal before iteration \<open>i\<close>, exactly \<open>i + 1\<close> requests are sent.
\<close>

theorem C2_terminal_state_stops:
  assumes "i < MaxRetries" "\<not> ctx_done E tr" "new_request_ok L (query_url b)"
    and "query_replies E i = Body body" "json_unmarshal L body = Some result"
    and "as_map (map_of result ''data'') = Some data"
    and "as_float64 (map_of data ''state'') = Some state"
  shows "(state = 4 \<longrightarrow>
            queryResult_loop L E callback b i tr
              = ((case as_string (map_of data ''result'') of
                    None \<Rightarrow> Inl ErrEmptyResult
                  | Some resultStr \<Rightarrow>
                      if resultStr = [] then Inl ErrEmptyResult
                      else (case json_unmarshal L resultStr of
                              None \<Rightarrow> Inl ErrResultParse
                            | Some payload \<Rightarrow> Inr payload)),
                 tr @ [ECheck, ERequest (QueryResult (taskID b))]))
       \<and> (state = 3 \<longrightarrow>
            queryResult_loop L E callback b i tr
              = (Inl (ErrTaskFailed 3), tr @ [ECheck, ERequest (QueryResult (taskID b))]))
       \<and> ((state = 4 \<or> state = 3) \<and> cancel_at E = None
            \<and> (\<forall>j<i. \<not> terminal (poll_state L E j)) \<longrightarrow>
            length (filter is_query (snd (queryResult L E callback b tr0)))
              = length (filter is_query tr0) + i + 1)"
proof -
  let ?Q = "ERequest (QueryResult (taskID b))"
  have ps: "poll_state L E i = Some (state, data)"
    using assms(4-7) by (simp add: poll_state_def)
  have four: "queryResult_loop L E callback b i t = (done_result L data, t @ [ECheck, ?Q])"
    if "state = 4" "\<not> ctx_done E t" for t
    using that ps assms(1,3) by (intro loop_return iter_done) simp_all
  have three: "queryResult_loop L E callback b i t = (Inl (ErrTaskFailed 3), t @ [ECheck, ?Q])"
    if "state = 3" "\<not> ctx_done E t" for t
    using that ps assms(1,3) by (intro loop_return iter_failed) simp_all
  have run: "length (filter is_query (snd (queryResult L E callback b tr0)))
              = length (filter is_query tr0) + i + 1"
    if st: "state = 4 \<or> state = 3" and nc: "cancel_at E = None"
      and pre: "\<forall>j<i. \<not> terminal (poll_state L E j)"
  proof -
    let ?t = "tr0 @ concat (map (iter_events L E callback b) [0..<i])"
    have "queryResult L E callback b tr0 = queryResult_loop L E callback b i ?t"
      unfolding queryResult_def using nc assms(1,3) pre
      by (intro loop_nonterminal_prefix) simp_all
    moreover have "snd (queryResult_loop L E callback b i ?t) = ?t @ [ECheck, ?Q]"
      using st four [of ?t] three [of ?t] nc by auto
    ultimately show ?thesis
      by (simp add: queries_concat)
  qed
  show ?thesis
    using four [OF _ assms(2)] three [OF _ assms(2)] run
    by (simp add: done_result_def)
qed


lemma poll_state_example:
  "poll_state example_lib example_env j
     = (if j < 2 then Some (0, [(''state'', JNum 0)])
        else Some (4, [(''state'', JNum 4), (''result'', JStr ''hi'')]))"
  by (simp add: poll_state_def example_defs)

theorem C2_terminal_state_stops_witness:
  "queryResult_loop example_lib example_env False (NewBcutASR ''a.mp3'' ''abcde'' False) 2 []
     = (Inr [(''utterances'', JArr [JObj [(''transcript'', JStr ''hi''),
                                            (''start_time'', JNum 0), (''end_time'', JNum 500)]])],
        [ECheck, ERequest (QueryResult [])])
   \<and> length (filter is_query
        (snd (queryResult example_lib example_env False (NewBcutASR ''a.mp3'' ''abcde'' False) []))) = 3"
proof -
  let ?b = "NewBcutASR ''a.mp3'' ''abcde'' False"
  let ?data = "[(''state'', JNum 4), (''result'', JStr ''hi'')]"
  have h: "2 < MaxRetries" "\<not> ctx_done example_env []" "new_request_ok example_lib (query_url ?b)"
    "query_replies example_env 2 = Body ''done''"
    "json_unmarshal example_lib ''done'' = Some [(''data'', JObj ?data)]"
    "as_map (map_of [(''data'', JObj ?data)] ''data'') = Some ?data"
    "as_float64 (map_of ?data ''state'') = Some 4"
    by (simp_all add: example_defs MaxRetries_def ctx_done_def)
  have n: "cancel_at example_env = None" "taskID ?b = []"
    by (simp_all add: example_defs)
  have p: "\<forall>j<2. \<not> terminal (poll_state example_lib example_env j)"
    by (simp add: poll_state_example terminal_def)
  have u: "json_unmarshal example_lib ''hi''
      = Some [(''utterances'', JArr [JObj [(''transcript'', JStr ''hi''),
                                            (''start_time'', JNum 0), (''end_time'', JNum 500)]])]"
    by (simp add: example_defs)
  from C2_terminal_state_stops [OF h, of False "[]"] n p
  show ?thesis
    by (simp add: u)
qed



section \<open>Properties of float64 rounding and of the progress percentage\<close>

lemma pow2_powi: "pow2 e = 2 powi e"
  by (simp add: pow2_def power_int_def inverse_eq_divide power_one_over)

lemma pow2_pos [simp]: "0 < pow2 e"
  by (simp add: pow2_powi)

lemma pow2_nonneg [simp]: "0 \<le> pow2 e"
  using pow2_pos [of e] by (rule less_imp_le)

lemma pow2_add: "pow2 (a + b) = pow2 a * pow2 b"
  by (simp add: pow2_powi power_int_add)

lemma pow2_mono: "a \<le> b \<Longrightarrow> pow2 a \<le> pow2 b"
  by (simp add: pow2_powi power_int_increasing)

lemma pow2_strict_mono: "a < b \<Longrightarrow> pow2 a < pow2 b"
  by (simp add: pow2_powi power_int_strict_increasing)

lemma pow2_less_cancel: "pow2 a < pow2 b \<Longrightarrow> a < b"
  using pow2_mono [of b a] by (cases "a < b") auto

lemma floor_log2_bounds:
  assumes "0 < x"
  shows "pow2 (floor_log2 x) \<le> x \<and> x < pow2 (floor_log2 x + 1)"
proof -
  obtain a b where q: "quotient_of x = (a, b)" by (cases "quotient_of x")
  then have b: "0 < b" and x: "x = of_int a / of_int b"
    by (simp_all add: quotient_of_denom_pos quotient_of_div)
  have a: "0 < a"
    using assms b x by (simp add: zero_less_divide_iff)
  let ?k = "bitlen a - bitlen b"
  have ba: "1 \<le> bitlen a" "1 \<le> bitlen b"
    using a b bitlen_eq_zero_iff [of a] bitlen_eq_zero_iff [of b] bitlen_nonneg [of a] bitlen_nonneg [of b]
    by linarith+
  have A: "(2::rat) ^ nat (bitlen a - 1) \<le> of_int a" "of_int a < (2::rat) ^ nat (bitlen a)"
    using bitlen_bounds [OF a]
    by (metis of_int_le_iff of_int_numeral of_int_power, metis of_int_less_iff of_int_numeral of_int_power)
  have B: "(2::rat) ^ nat (bitlen b - 1) \<le> of_int b" "of_int b < (2::rat) ^ nat (bitlen b)"
    using bitlen_bounds [OF b]
    by (metis of_int_le_iff of_int_numeral of_int_power, metis of_int_less_iff of_int_numeral of_int_power)
  have pa: "pow2 (bitlen a) = 2 ^ nat (bitlen a)" "pow2 (bitlen a - 1) = 2 ^ nat (bitlen a - 1)"
    and pb: "pow2 (bitlen b) = 2 ^ nat (bitlen b)" "pow2 (bitlen b - 1) = 2 ^ nat (bitlen b - 1)"
    using ba by (simp_all add: pow2_def)
  have bq: "(0::rat) < of_int b" using b by simp
  have up: "x < pow2 (?k + 1)"
  proof -
    have "of_int a < pow2 (bitlen a)" using A(2) pa by simp
    also have "pow2 (bitlen a) = pow2 (?k + 1) * pow2 (bitlen b - 1)"
      by (simp add: pow2_add [symmetric])
    also have "\<dots> \<le> pow2 (?k + 1) * of_int b"
      using B(1) pb by (intro mult_left_mono) simp_all
    finally show ?thesis using bq by (simp add: x pos_divide_less_eq)
  qed
  have lo: "pow2 (?k - 1) \<le> x"
  proof -
    have "pow2 (?k - 1) * of_int b \<le> pow2 (?k - 1) * pow2 (bitlen b)"
      using B(2) pb by (intro mult_left_mono) simp_all
    also have "\<dots> = pow2 (bitlen a - 1)"
      by (simp add: pow2_add [symmetric])
    also have "\<dots> \<le> of_int a" using A(1) pa by simp
    finally show ?thesis using bq by (simp add: x pos_le_divide_eq)
  qed
  show ?thesis
  proof (cases "pow2 ?k \<le> x")
    case True
    then have "floor_log2 x = ?k" by (simp add: floor_log2_def q)
    then show ?thesis using True up by simp
  next
    case False
    then have "floor_log2 x = ?k - 1" by (simp add: floor_log2_def q)
    then show ?thesis using False lo by simp
  qed
qed

lemma round_half_even_error: "\<bar>of_int (round_half_even y) - y\<bar> \<le> 1 / 2"
proof -
  have "of_int \<lfloor>y\<rfloor> \<le> y" "y < of_int \<lfloor>y\<rfloor> + 1"
    by linarith+
  then show ?thesis
    unfolding round_half_even_def Let_def by (auto simp: abs_le_iff)
qed

lemma round_half_even_nonneg: "0 \<le> y \<Longrightarrow> 0 \<le> round_half_even y"
  unfolding round_half_even_def Let_def by auto

lemma round_half_even_int [simp]: "round_half_even (of_int n) = n"
  by (simp add: round_half_even_def)


lemma abs_scale:
  fixes k u x :: rat
  assumes "0 < u"
  shows "\<bar>k * u - x\<bar> = \<bar>k - x / u\<bar> * u"
proof -
  have "k * u - x = (k - x / u) * u"
    using assms by (simp add: field_simps)
  then show ?thesis
    using assms by (simp add: abs_mult)
qed

lemma round64_pos:
  assumes "0 < x" "x < pow2 E" "- 1021 \<le> E"
  shows "\<bar>round64 x - x\<bar> \<le> pow2 (E - 54) \<and> 0 \<le> round64 x"
proof -
  let ?e = "max (floor_log2 x) (- 1022)"
  let ?u = "pow2 (?e - 52)"
  have "pow2 (floor_log2 x) < pow2 E"
    using floor_log2_bounds [OF assms(1)] assms(2) by simp
  then have "floor_log2 x < E" by (rule pow2_less_cancel)
  then have e: "?e - 53 \<le> E - 54" using assms(3) by simp
  have r: "round64 x = of_int (round_half_even (x / ?u)) * ?u"
    using assms(1) by (simp add: round64_def Let_def)
  have half: "?u = 2 * pow2 (?e - 53)"
    using pow2_add [of 1 "?e - 53"] by (simp add: pow2_def)
  have "\<bar>round64 x - x\<bar> = \<bar>of_int (round_half_even (x / ?u)) - x / ?u\<bar> * ?u"
    unfolding r by (rule abs_scale) simp
  also have "\<dots> \<le> 1 / 2 * ?u"
    using round_half_even_error [of "x / ?u"] by (intro mult_right_mono) simp_all
  also have "\<dots> = pow2 (?e - 53)" using half by simp
  also have "\<dots> \<le> pow2 (E - 54)" using e by (rule pow2_mono)
  finally have A: "\<bar>round64 x - x\<bar> \<le> pow2 (E - 54)" .
  have "0 \<le> x / ?u" using assms(1) by simp
  then have "0 \<le> round_half_even (x / ?u)" by (rule round_half_even_nonneg)
  then have "0 \<le> round64 x" unfolding r by simp
  with A show ?thesis by simp
qed

lemma round64_nat_exact:
  assumes "n < 2 ^ 53"
  shows "round64 (of_nat n) = of_nat n"
proof (cases "n = 0")
  case True
  then show ?thesis by (simp add: round64_def)
next
  case False
  let ?x = "of_nat n :: rat"
  let ?f = "floor_log2 ?x"
  have x: "0 < ?x" "1 \<le> ?x" using False by simp_all
  have b: "pow2 ?f \<le> ?x" "?x < pow2 (?f + 1)"
    using floor_log2_bounds [OF x(1)] by simp_all
  have "pow2 0 < pow2 (?f + 1)" using x(2) b(2) by (simp add: pow2_def)
  then have f0: "0 \<le> ?f" using pow2_less_cancel by fastforce
  have "?x < 2 ^ 53" using assms by (metis of_nat_less_iff of_nat_numeral of_nat_power)
  then have "pow2 ?f < pow2 53" using b(1) by (simp add: pow2_def)
  then have f53: "?f < 53" by (rule pow2_less_cancel)
  let ?m = "nat (52 - ?f)"
  have e: "max ?f (- 1022) = ?f" using f0 by simp
  have u: "pow2 (?f - 52) = 1 / 2 ^ ?m"
  proof (cases "?f = 52")
    case True
    then show ?thesis by (simp add: pow2_def)
  next
    case False
    then have "?f - 52 < 0" using f53 by simp
    moreover have "nat (- (?f - 52)) = ?m" by simp
    ultimately show ?thesis unfolding pow2_def by (simp del: nat_diff_distrib')
  qed
  have "?x / pow2 (?f - 52) = of_int (int n * 2 ^ ?m)"
    unfolding u by simp
  then have "round_half_even (?x / pow2 (?f - 52)) = int n * 2 ^ ?m"
    by (simp only: round_half_even_int)
  then have "round64 ?x = of_int (int n * 2 ^ ?m) * (1 / 2 ^ ?m)"
    using x(1) by (simp add: round64_def Let_def e u)
  then show ?thesis by simp
qed

lemma mod_39_500:
  assumes "0 < i" "i < (500::nat)"
  shows "1 \<le> (39 * int i) mod 500 \<and> (39 * int i) mod 500 \<le> 499"
proof -
  have nz: "(39 * int i) mod 500 \<noteq> 0"
  proof
    assume "(39 * int i) mod 500 = 0"
    then have "500 dvd 39 * int i" by (simp add: mod_eq_0_iff_dvd)
    then have a: "500 dvd 141 * (39 * int i)" by (rule dvd_mult)
    have "(500::int) dvd 5500" by simp
    then have b: "500 dvd 5500 * int i" by (rule dvd_mult2)
    have "int i = 5500 * int i - 141 * (39 * int i)" by simp
    then have "500 dvd int i" using dvd_diff [OF b a] by simp
    then have "500 \<le> int i" using assms(1) by (intro zdvd_imp_le) simp_all
    then show False using assms(2) by simp
  qed
  have "0 \<le> (39 * int i) mod 500" "(39 * int i) mod 500 < 500" by simp_all
  with nz show ?thesis by linarith
qed

lemma div_39_500:
  assumes "i < (500::nat)"
  shows "0 \<le> (39 * int i) div 500 \<and> (39 * int i) div 500 < 39"
proof -
  define n f where "n = (39 * int i) div 500" and "f = (39 * int i) mod 500"
  have "39 * int i = 500 * n + f" by (simp add: n_def f_def)
  moreover have "0 \<le> f" "f < 500" by (simp_all add: f_def)
  moreover have "0 \<le> int i" "int i < 500" using assms by simp_all
  ultimately have "0 \<le> n \<and> n < 39" by linarith
  then show ?thesis by (simp add: n_def)
qed

lemma rounding_slack: "(1::rat) / 2 ^ 48 + 39 * (1 / 2 ^ 54) < 1 / 500"
proof -
  have "(2::rat) ^ 54 = 64 * 2 ^ 48" by simp
  then have "(1::rat) / 2 ^ 48 + 39 * (1 / 2 ^ 54) = (103 / 64) * (1 / 2 ^ 48)"
    by (simp add: field_simps)
  also have "\<dots> < 2 * (1 / 2 ^ 48)" by simp
  also have "\<dots> \<le> 2 * (1 / 2 ^ 10)" 
    by (intro mult_left_mono divide_left_mono power_increasing) simp_all
  also have "\<dots> < 1 / 500" by simp
  finally show ?thesis .
qed

lemma floor_from_bounds:
  fixes q r1 r2 a c N F :: rat
  assumes "0 < a" "0 < c" "c + 39 * a < 1 / 500"
    and "r1 - q \<le> a \<and> - (r1 - q) \<le> a"
    and "r2 - r1 * 39 \<le> c \<and> - (r2 - r1 * 39) \<le> c"
    and "39 * q = N + F" "1 / 500 \<le> F" "F \<le> 499 / 500"
  shows "N \<le> r2 \<and> r2 < N + 1"
  using assms by linarith

lemma r1_bounds:
  fixes q r1 a c :: rat
  assumes "0 < a" "0 < c" "c + 39 * a < 1 / 500"
    and "r1 - q \<le> a \<and> - (r1 - q) \<le> a" "1 / 500 \<le> q" "q < 1"
  shows "0 < r1 \<and> r1 * 39 < 64"
  using assms by linarith

lemma progress_of_eq:
  assumes "i < 500"
  shows "progress_of i = 60 + (39 * int i) div 500"
proof (cases "i = 0")
  case True
  then show ?thesis
    by (simp add: progress_of_def f64_div_def f64_mul_def f64_to_int_def round64_def Let_def)
next
  case False
  define q :: rat where "q = of_nat i / 500"
  define r1 where "r1 = round64 q"
  define r2 where "r2 = round64 (r1 * 39)"
  let ?n = "(39 * int i) div 500" and ?f = "(39 * int i) mod 500"
  have i: "0 < i" using False by simp
  have xi: "round64 (of_nat i) = of_nat i"
    using assms by (intro round64_nat_exact) simp
  have xm: "round64 (of_nat MaxRetries) = 500"
    using round64_nat_exact [of 500] by (simp add: MaxRetries_def)
  have q0: "0 < q" using i by (simp add: q_def)
  have q1: "q < pow2 0" using assms by (simp add: pow2_def q_def)
  have "(1::rat) \<le> of_nat i" using i by simp
  then have qlo: "1 / 500 \<le> q" by (simp add: q_def)
  have q1': "q < 1" using q1 by (simp add: pow2_def)
  define a c :: rat where "a = 1 / 2 ^ 54" and "c = 1 / 2 ^ 48"
  have ac: "0 < a" "0 < c" "c + 39 * a < 1 / 500"
    using rounding_slack by (simp_all add: a_def c_def)
  have pa: "pow2 (- 54) = a" and pc: "pow2 (- 48) = c" and p6: "pow2 6 = 64"
    by (simp_all add: pow2_def a_def c_def)
  have "\<bar>r1 - q\<bar> \<le> pow2 (0 - 54)"
    unfolding r1_def using round64_pos [OF q0 q1] by simp
  then have e1: "r1 - q \<le> a \<and> - (r1 - q) \<le> a"
    using pa by (simp add: abs_le_iff)
  have r1b: "0 < r1 \<and> r1 * 39 < 64"
    using ac e1 qlo q1' by (rule r1_bounds)
  have y0: "0 < r1 * 39" using r1b by simp
  have y1: "r1 * 39 < pow2 6" using r1b p6 by simp
  have "\<bar>r2 - r1 * 39\<bar> \<le> pow2 (6 - 54) \<and> 0 \<le> r2"
    unfolding r2_def using round64_pos [OF y0 y1] by simp
  then have e2: "r2 - r1 * 39 \<le> c \<and> - (r2 - r1 * 39) \<le> c" and r2: "0 \<le> r2"
    using pc by (simp_all add: abs_le_iff)
  have f: "1 \<le> ?f" "?f \<le> 499"
    using mod_39_500 [OF i assms] by simp_all
  have dm: "39 * int i = ?n * 500 + ?f" by simp
  define N F :: rat where "N = of_int ?n" and "F = of_int ?f / 500"
  have "(of_int (39 * int i) :: rat) = of_int (?n * 500 + ?f)"
    using dm by (rule arg_cong)
  also have "\<dots> = N * 500 + F * 500"
  proof -
    have "(of_int (n * 500 + f) :: rat) = of_int n * 500 + of_int f / 500 * 500" for n f :: int
      by simp
    then show ?thesis unfolding N_def F_def .
  qed
  finally have "39 * q = (N * 500 + F * 500) / 500"
    by (simp add: q_def)
  then have q39: "39 * q = N + F"
    by (simp add: add_divide_distrib)
  have flo: "1 / 500 \<le> F" and fhi: "F \<le> 499 / 500"
    using f by (simp_all add: F_def)
  have "N \<le> r2 \<and> r2 < N + 1"
    using ac e1 e2 q39 flo fhi by (rule floor_from_bounds)
  then have fl: "\<lfloor>r2\<rfloor> = ?n" unfolding N_def by (intro floor_unique) simp_all
  have n: "0 \<le> ?n" "?n < 39" using div_39_500 [OF assms] by simp_all
  have "f64_to_int r2 = ?n"
    using r2 n by (simp add: f64_to_int_def fl)
  then show ?thesis
    using n by (simp add: progress_of_def f64_div_def f64_mul_def xi xm Let_def r2_def r1_def q_def)
qed

lemma floor_progress:
  "\<lfloor>rat_of_nat i / rat_of_nat MaxRetries * 39\<rfloor> = (39 * int i) div 500"
proof -
  have "rat_of_nat i / rat_of_nat MaxRetries * 39 = rat_of_int (39 * int i) / rat_of_int 500"
    by (simp add: MaxRetries_def)
  then show ?thesis
    by (simp only: floor_divide_of_int_eq)
qed

section \<open>Properties of the orchestrator\<close>

lemma callbacks_call: "callbacks (call callback p tr) = callbacks tr @ (if callback then [p] else [])"
  by (simp add: call_def)

lemma callbacks_round_trip: "callbacks (snd (round_trip L url rq reply tr)) = callbacks tr"
  by (simp add: round_trip_def Let_def split: http_reply.split option.split)

lemma snd_requestUpload:
  "snd (requestUpload L E b tr)
     = snd (round_trip L API_REQ_UPLOAD (ReqUpload (length (FileBinary b))) (upload_reply E) tr)"
  by (simp add: requestUpload_def split: prod.split sum.split option.split)

lemma snd_commitUpload:
  "snd (commitUpload L E b tr)
     = snd (round_trip L API_COMMIT_UPLOAD
              (CommitUpload (inBossKey b) (resourceID b) (buildEtags b) (uploadID b)) (commit_reply E) tr)"
  by (simp add: commitUpload_def split: prod.split sum.split option.split)

lemma snd_createTask:
  "snd (createTask L E b tr)
     = snd (round_trip L API_CREATE_TASK (CreateTask (downloadURL b)) (task_reply E) tr)"
  by (simp add: createTask_def split: prod.split sum.split option.split)

lemma callbacks_uploadParts_loop:
  "callbacks (snd (uploadParts_loop L E b i tr)) = callbacks tr"
proof (induction "clips b - i" arbitrary: b i tr)
  case 0
  then show ?case by (simp add: uploadParts_loop_done)
next
  case (Suc n)
  then have lt: "i < clips b" by simp
  have ih: "callbacks (snd (uploadParts_loop L E (b\<lparr>etags := es\<rparr>) (Suc i) t)) = callbacks t" for es t
    using Suc.hyps(2) by (intro Suc.hyps(1)) simp
  show ?case
    using lt by (subst uploadParts_loop.simps) (simp add: Let_def ih split: put_reply.split)
qed

lemma callbacks_upload: "callbacks (snd (upload L E b tr)) = callbacks tr"
proof -
  obtain r1 t1 where a: "requestUpload L E b tr = (r1, t1)" by (cases "requestUpload L E b tr")
  then have c1: "callbacks t1 = callbacks tr"
    using snd_requestUpload [of L E b tr] callbacks_round_trip by (metis snd_conv)
  show ?thesis
  proof (cases r1)
    case (Inl e)
    then show ?thesis using a c1 by (simp add: upload_def)
  next
    case (Inr b1)
    obtain r2 t2 where b: "uploadParts L E b1 t1 = (r2, t2)" by (cases "uploadParts L E b1 t1")
    then have c2: "callbacks t2 = callbacks tr"
      using callbacks_uploadParts_loop [of L E _ 0 t1] c1 by (simp add: uploadParts_def) (metis snd_conv)
    show ?thesis
    proof (cases r2)
      case (Inl e)
      then show ?thesis using a b Inr c2 by (simp add: upload_def)
    next
      case r: (Inr b2)
      have "callbacks (snd (commitUpload L E b2 t2)) = callbacks t2"
        by (simp add: snd_commitUpload callbacks_round_trip)
      then show ?thesis using a b Inr r c2 by (simp add: upload_def)
    qed
  qed
qed

lemma callbacks_createTask: "callbacks (snd (createTask L E b tr)) = callbacks tr"
  by (simp add: snd_createTask callbacks_round_trip)

lemma iter_callbacks:
  "(\<exists>r tr2. queryResult_iter L E callback b i tr = Return r tr2 \<and> callbacks tr2 = callbacks tr)
   \<or> (\<exists>tr2. queryResult_iter L E callback b i tr = Continue tr2
          \<and> (callbacks tr2 = callbacks tr
              \<or> i mod 5 = 0 \<and> callbacks tr2 = callbacks tr @ [progress_of i]))"
proof (cases "ctx_done E tr \<or> \<not> new_request_ok L (query_url b)")
  case True
  then show ?thesis by (auto simp: iter_unfold)
next
  case False
  then have g: "\<not> ctx_done E tr" "new_request_ok L (query_url b)" by simp_all
  show ?thesis
  proof (cases "poll_state L E i")
    case None
    then show ?thesis using g by (simp add: iter_unfold)
  next
    case (Some s)
    obtain state data where s: "s = (state, data)" by (cases s)
    consider "state = 4" | "state = 3" | "state \<noteq> 4" "state \<noteq> 3" by blast
    then show ?thesis
    proof cases
      case 1
      then show ?thesis using g Some s by (simp add: iter_unfold)
    next
      case 2
      then show ?thesis using g Some s by (simp add: iter_unfold)
    next
      case 3
      then show ?thesis using g Some s by (simp add: iter_unfold)
    qed
  qed
qed

lemma loop_callbacks:
  assumes "queryResult_loop L E callback b i tr = (res, tr')"
  shows "\<exists>js. callbacks tr' = callbacks tr @ map progress_of js \<and> sorted_wrt (<) js
           \<and> (\<forall>j \<in> set js. i \<le> j \<and> j < MaxRetries \<and> j mod 5 = 0)"
  using assms
proof (induction "MaxRetries - i" arbitrary: i tr)
  case 0
  then have "tr' = tr" by (simp add: loop_done)
  then show ?case by (intro exI [of _ "[]"]) simp
next
  case (Suc k)
  then have lt: "i < MaxRetries" by simp
  from iter_callbacks [of L E callback b i tr]
  consider (ret) r tr2 where "queryResult_iter L E callback b i tr = Return r tr2"
        "callbacks tr2 = callbacks tr"
    | (quiet) tr2 where "queryResult_iter L E callback b i tr = Continue tr2"
        "callbacks tr2 = callbacks tr"
    | (report) tr2 where "queryResult_iter L E callback b i tr = Continue tr2"
        "i mod 5 = 0" "callbacks tr2 = callbacks tr @ [progress_of i]"
    by auto
  then show ?case
  proof cases
    case ret
    then have "tr' = tr2" using loop_return [OF lt ret(1)] Suc.prems by simp
    then show ?thesis using ret(2) by (intro exI [of _ "[]"]) simp
  next
    case quiet
    have run: "queryResult_loop L E callback b (i + 1) tr2 = (res, tr')"
      using loop_continue [OF lt quiet(1)] Suc.prems by simp
    have k: "k = MaxRetries - (i + 1)" using Suc.hyps(2) by simp
    from Suc.hyps(1) [OF k run] obtain js where
      "callbacks tr' = callbacks tr2 @ map progress_of js" "sorted_wrt (<) js"
      "\<forall>j \<in> set js. i + 1 \<le> j \<and> j < MaxRetries \<and> j mod 5 = 0"
      by blast
    then show ?thesis using quiet(2) by (intro exI [of _ js]) auto
  next
    case report
    have run: "queryResult_loop L E callback b (i + 1) tr2 = (res, tr')"
      using loop_continue [OF lt report(1)] Suc.prems by simp
    have k: "k = MaxRetries - (i + 1)" using Suc.hyps(2) by simp
    from Suc.hyps(1) [OF k run] obtain js where
      "callbacks tr' = callbacks tr2 @ map progress_of js" "sorted_wrt (<) js"
      "\<forall>j \<in> set js. i + 1 \<le> j \<and> j < MaxRetries \<and> j mod 5 = 0"
      by blast
    then show ?thesis using report(2,3) lt by (intro exI [of _ "i # js"]) auto
  qed
qed

lemma progress_values:
  assumes "sorted_wrt (<) js" "\<forall>j \<in> set js. j < MaxRetries"
  shows "sorted (map progress_of js) \<and> (\<forall>p \<in> set (map progress_of js). 60 \<le> p \<and> p \<le> 98)"
proof -
  have eq: "progress_of j = 60 + (39 * int j) div 500" if "j \<in> set js" for j
    using that assms(2) by (intro progress_of_eq) (simp add: MaxRetries_def)
  have b: "60 \<le> progress_of j \<and> progress_of j \<le> 98" if "j \<in> set js" for j
  proof -
    have "j < 500" using that assms(2) by (simp add: MaxRetries_def)
    from div_39_500 [OF this] show ?thesis using eq [OF that] by simp
  qed
  have m: "progress_of j \<le> progress_of k" if "j \<in> set js" "k \<in> set js" "j < k" for j k
  proof -
    have "(39 * int j) div 500 \<le> (39 * int k) div 500"
      using that(3) by (intro zdiv_mono1) simp_all
    then show ?thesis using eq that by simp
  qed
  have "sorted (map progress_of js)"
    using assms(1) m
  proof (induction js)
    case Nil
    show ?case by simp
  next
    case (Cons x xs)
    then show ?case by (auto simp: less_imp_le)
  qed
  then show ?thesis using b by auto
qed

lemma example_times:
  "f64_add (f64_div 0 1000) TimeOffset = f64_lit (105 / 1000)"
  "f64_add (f64_div 500 1000) TimeOffset = f64_lit (605 / 1000)"
  unfolding TimeOffset_def by code_simp+

lemmas run_defs = GetResult_def upload_def requestUpload_def round_trip_def requestUpload_fields_def
  uploadParts_def uploadParts_loop.simps commitUpload_def createTask_def queryResult_def
  queryResult_loop.simps iter_unfold poll_state_def done_result_def makeSegments_def
  GetCacheKey_def LoadFromCache_def SaveToCache_def call_def buildEtags_def etag_of_def
  slice_def int64_def f64_to_int_def ctx_done_def MaxRetries_def Let_def
  string_or_zero_def float64_or_zero_def

lemma GetResult_example_empty:
  "GetResult example_lib empty_env False (NewBcutASR ''a.mp3'' ''abcde'' True) no_files
     = (Inr [], no_files,
        [ERequest (ReqUpload 5), ERequest (PutPart ''u0'' ''ab''), ERequest (PutPart ''u1'' ''cd''),
         ERequest (PutPart ''u2'' ''e''), ERequest (CommitUpload ''k'' ''r'' ''e0,e1,e2'' ''u''),
         ERequest (CreateTask ''d''), ECheck, ERequest (QueryResult ''t'')])"
  by (simp add: run_defs example_defs empty_env_def no_files_def)

lemma GetResult_example:
  "GetResult example_lib example_env True (NewBcutASR ''a.mp3'' ''abcde'' True) no_files
     = (Inr [\<lparr>Text = ''hi'', StartTime = f64_lit (105 / 1000), EndTime = f64_lit (605 / 1000)\<rparr>],
        no_files(''./cache/BcutASR_a.mp3abcde.json'' \<mapsto> Content ''s''),
        [ECallback 20, ERequest (ReqUpload 5), ERequest (PutPart ''u0'' ''ab''),
         ERequest (PutPart ''u1'' ''cd''), ERequest (PutPart ''u2'' ''e''),
         ERequest (CommitUpload ''k'' ''r'' ''e0,e1,e2'' ''u''), ECallback 50,
         ERequest (CreateTask ''d''), ECallback 60,
         ECheck, ERequest (QueryResult ''t''), ECallback (progress_of 0), ESleep 1,
         ECheck, ERequest (QueryResult ''t''), ESleep 1,
         ECheck, ERequest (QueryResult ''t''), ECallback 100])"
  using example_times by (simp add: run_defs example_defs no_files_def)

lemma GetResult_hit:
  assumes "UseCache b"
    and "LoadFromCache L fs ''./cache'' (GetCacheKey L b ''BcutASR'') = Some cached"
  shows "GetResult L E callback b fs = (Inr cached, fs, if callback then [ECallback 100] else [])"
  using assms by (simp add: GetResult_def call_def)

lemma GetResult_miss_success:
  assumes "GetResult L E callback b fs = (Inr segs, fs1, tr1)"
    and "(if UseCache b then LoadFromCache L fs ''./cache'' (GetCacheKey L b ''BcutASR'') else None) = None"
  shows "fs1 = (if UseCache b \<and> length segs > 0
                then snd (SaveToCache L E fs ''./cache'' (GetCacheKey L b ''BcutASR'') segs) else fs)"
proof -
  obtain r1 t1 where u: "upload L E b (call callback 20 []) = (r1, t1)"
    by (cases "upload L E b (call callback 20 [])")
  show ?thesis
  proof (cases r1)
    case (Inl e)
    then show ?thesis using assms u by (simp add: GetResult_def)
  next
    case (Inr b1)
    obtain r2 t2 where c: "createTask L E b1 (call callback 50 t1) = (r2, t2)"
      by (cases "createTask L E b1 (call callback 50 t1)")
    show ?thesis
    proof (cases r2)
      case (Inl e)
      then show ?thesis using assms u Inr c by (simp add: GetResult_def)
    next
      case b2: (Inr b2)
      obtain r3 t3 where q: "queryResult L E callback b2 (call callback 60 t2) = (r3, t3)"
        by (cases "queryResult L E callback b2 (call callback 60 t2)")
      show ?thesis
      proof (cases r3)
        case (Inl e)
        then show ?thesis using assms u Inr c b2 q by (simp add: GetResult_def)
      next
        case (Inr result)
        then show ?thesis
          using assms u \<open>r1 = Inr b1\<close> c b2 q
          by (auto simp: GetResult_def Let_def split: if_splits)
      qed
    qed
  qed
qed

lemma GetResult_fills_cache:
  assumes "GetResult L E callback b fs = (Inr segs, fs1, tr1)" "UseCache b" "segs \<noteq> []"
    and "cache_writable E" "unmarshal_segments L (marshal_segments L segs) = Some segs"
  shows "LoadFromCache L fs1 ''./cache'' (GetCacheKey L b ''BcutASR'') = Some segs"
proof (cases "LoadFromCache L fs ''./cache'' (GetCacheKey L b ''BcutASR'')")
  case (Some cached)
  then show ?thesis
    using GetResult_hit [OF assms(2) Some, of E callback] assms(1) by simp
next
  case None
  then have "fs1 = snd (SaveToCache L E fs ''./cache'' (GetCacheKey L b ''BcutASR'') segs)"
    using GetResult_miss_success [OF assms(1)] assms(2,3) by simp
  then show ?thesis
    using assms(4,5) by (simp add: SaveToCache_def LoadFromCache_def)
qed

lemma GetResult_callbacks_sorted:
  "sorted (callbacks (snd (snd (GetResult L E callback b fs))))"
proof (cases "if UseCache b then LoadFromCache L fs ''./cache'' (GetCacheKey L b ''BcutASR'') else None")
  case (Some cached)
  then show ?thesis by (simp add: GetResult_def call_def)
next
  case None
  let ?c = "\<lambda>p. if callback then [p::int] else []"
  obtain r1 t1 where u: "upload L E b (call callback 20 []) = (r1, t1)"
    by (cases "upload L E b (call callback 20 [])")
  have c1: "callbacks t1 = ?c 20"
    using callbacks_upload [of L E b "call callback 20 []"] u by (simp add: call_def)
  show ?thesis
  proof (cases r1)
    case (Inl e)
    then show ?thesis using None u c1 by (simp add: GetResult_def)
  next
    case (Inr b1)
    obtain r2 t2 where c: "createTask L E b1 (call callback 50 t1) = (r2, t2)"
      by (cases "createTask L E b1 (call callback 50 t1)")
    have c2: "callbacks t2 = ?c 20 @ ?c 50"
      using callbacks_createTask [of L E b1 "call callback 50 t1"] c c1 by (simp add: call_def)
    show ?thesis
    proof (cases r2)
      case (Inl e)
      then show ?thesis using None u Inr c c2 by (simp add: GetResult_def)
    next
      case b2: (Inr b2)
      obtain r3 t3 where q: "queryResult L E callback b2 (call callback 60 t2) = (r3, t3)"
        by (cases "queryResult L E callback b2 (call callback 60 t2)")
      from loop_callbacks [OF q [unfolded queryResult_def]] obtain js where js:
        "callbacks t3 = callbacks (call callback 60 t2) @ map progress_of js" "sorted_wrt (<) js"
        "\<forall>j \<in> set js. j < MaxRetries"
        by blast
      from progress_values [OF js(2,3)] have ps: "sorted (map progress_of js)"
        "\<forall>p \<in> set (map progress_of js). 60 \<le> p \<and> p \<le> 98"
        by simp_all
      have c3: "callbacks t3 = ?c 20 @ ?c 50 @ ?c 60 @ map progress_of js"
        using js(1) c2 by (simp add: call_def)
      have s3: "sorted (?c 20 @ ?c 50 @ ?c 60 @ map progress_of js @ ?c 100)"
        using ps by (auto simp: sorted_append)
      have s3': "sorted (?c 20 @ ?c 50 @ ?c 60 @ map progress_of js)"
        using ps by (auto simp: sorted_append)
      show ?thesis
      proof (cases r3)
        case (Inl e)
        then show ?thesis using None u Inr c b2 q c3 s3' by (simp add: GetResult_def)
      next
        case r: (Inr result)
        have cw: "callbacks (map EWarn ws) = []" for ws
          by (induction ws) simp_all
        have "callbacks (snd (snd (GetResult L E callback b fs)))
            = ?c 20 @ ?c 50 @ ?c 60 @ map progress_of js @ ?c 100"
          using None u Inr c b2 q r c3 by (simp add: GetResult_def Let_def call_def cw)
        then show ?thesis using s3 by simp
      qed
    qed
  qed
qed

text \<open>
  C8, as stated, fails: a successful call that maps the result to zero segments writes no
  cache entry (the cache is written only when there is at least one segment), so a second
  call on the same file repeats every request of the first.
\<close>

theorem C8_counterexample:
  "GetResult example_lib empty_env False (NewBcutASR ''a.mp3'' ''abcde'' True) no_files
     = (Inr [], no_files,
        [ERequest (ReqUpload 5), ERequest (PutPart ''u0'' ''ab''), ERequest (PutPart ''u1'' ''cd''),
         ERequest (PutPart ''u2'' ''e''), ERequest (CommitUpload ''k'' ''r'' ''e0,e1,e2'' ''u''),
         ERequest (CreateTask ''d''), ECheck, ERequest (QueryResult ''t'')])
   \<and> filter is_request (snd (snd
         (GetResult example_lib empty_env False (NewBcutASR ''a.mp3'' ''abcde'' True)
            (fst (snd (GetResult example_lib empty_env False
                         (NewBcutASR ''a.mp3'' ''abcde'' True) no_files))))))
     = [ERequest (ReqUpload 5), ERequest (PutPart ''u0'' ''ab''), ERequest (PutPart ''u1'' ''cd''),
        ERequest (PutPart ''u2'' ''e''), ERequest (CommitUpload ''k'' ''r'' ''e0,e1,e2'' ''u''),
        ERequest (CreateTask ''d''), ERequest (QueryResult ''t'')]"
  by (simp add: GetResult_example_empty)

text \<open>
  C8, amended. With caching enabled, a call that finds a cache entry for the key of the
  file returns it at once, reports 100 percent and sends no request. After a successful
  call that returns at least one segment, with a writable cache directory and segments that
  decode back from their JSON encoding, the entry is written: a second call for the same
  path and bytes returns the same segments and sends no request, so both calls together
  send the requests of the first only.
\<close>

theorem C8_cache_idempotent:
  "(UseCache b \<and> LoadFromCache L fs ''./cache'' (GetCacheKey L b ''BcutASR'') = Some cached \<longrightarrow>
      GetResult L E callback b fs = (Inr cached, fs, if callback then [ECallback 100] else [])
      \<and> filter is_request (snd (snd (GetResult L E callback b fs))) = [])
   \<and> (UseCache b \<and> GetResult L E callback b fs = (Inr segs, fs1, tr1) \<and> segs \<noteq> []
      \<and> cache_writable E \<and> unmarshal_segments L (marshal_segments L segs) = Some segs
      \<and> AudioPath b2 = AudioPath b \<and> FileBinary b2 = FileBinary b \<and> UseCache b2 \<longrightarrow>
      GetResult L E2 callback2 b2 fs1 = (Inr segs, fs1, if callback2 then [ECallback 100] else [])
      \<and> filter is_request (tr1 @ snd (snd (GetResult L E2 callback2 b2 fs1)))
          = filter is_request tr1)"
proof -
  have hit: "GetResult L' E' c' b' fs' = (Inr cached', fs', if c' then [ECallback 100] else [])
      \<and> filter is_request (snd (snd (GetResult L' E' c' b' fs'))) = []"
    if "UseCache b'" "LoadFromCache L' fs' ''./cache'' (GetCacheKey L' b' ''BcutASR'') = Some cached'"
    for L' E' c' b' fs' cached'
    using GetResult_hit [OF that] by simp
  have second: "GetResult L E2 callback2 b2 fs1 = (Inr segs, fs1, if callback2 then [ECallback 100] else [])
      \<and> filter is_request (tr1 @ snd (snd (GetResult L E2 callback2 b2 fs1))) = filter is_request tr1"
    if a: "UseCache b" "GetResult L E callback b fs = (Inr segs, fs1, tr1)" "segs \<noteq> []"
      "cache_writable E" "unmarshal_segments L (marshal_segments L segs) = Some segs"
      "AudioPath b2 = AudioPath b" "FileBinary b2 = FileBinary b" "UseCache b2"
  proof -
    have "LoadFromCache L fs1 ''./cache'' (GetCacheKey L b ''BcutASR'') = Some segs"
      using a(2,1,3,4,5) by (rule GetResult_fills_cache)
    moreover have "GetCacheKey L b2 ''BcutASR'' = GetCacheKey L b ''BcutASR''"
      using a(6,7) by (simp add: GetCacheKey_def)
    ultimately have "LoadFromCache L fs1 ''./cache'' (GetCacheKey L b2 ''BcutASR'') = Some segs"
      by simp
    from hit [OF a(8) this, of E2 callback2] show ?thesis by simp
  qed
  show ?thesis
    using hit [of b L fs cached E callback] second by blast
qed

theorem C8_cache_idempotent_witness:
  "GetResult example_lib example_env True (NewBcutASR ''a.mp3'' ''abcde'' True) no_files
     = (Inr [\<lparr>Text = ''hi'', StartTime = f64_lit (105 / 1000), EndTime = f64_lit (605 / 1000)\<rparr>],
        no_files(''./cache/BcutASR_a.mp3abcde.json'' \<mapsto> Content ''s''),
        [ECallback 20, ERequest (ReqUpload 5), ERequest (PutPart ''u0'' ''ab''),
         ERequest (PutPart ''u1'' ''cd''), ERequest (PutPart ''u2'' ''e''),
         ERequest (CommitUpload ''k'' ''r'' ''e0,e1,e2'' ''u''), ECallback 50,
         ERequest (CreateTask ''d''), ECallback 60,
         ECheck, ERequest (QueryResult ''t''), ECallback (progress_of 0), ESleep 1,
         ECheck, ERequest (QueryResult ''t''), ESleep 1,
         ECheck, ERequest (QueryResult ''t''), ECallback 100])
   \<and> GetResult example_lib stub_env True (NewBcutASR ''a.mp3'' ''abcde'' True)
       (no_files(''./cache/BcutASR_a.mp3abcde.json'' \<mapsto> Content ''s''))
     = (Inr [\<lparr>Text = ''hi'', StartTime = f64_lit (105 / 1000), EndTime = f64_lit (605 / 1000)\<rparr>],
        no_files(''./cache/BcutASR_a.mp3abcde.json'' \<mapsto> Content ''s''),
        [ECallback 100])"
proof -
  let ?b = "NewBcutASR ''a.mp3'' ''abcde'' True"
  let ?seg = "\<lparr>Text = ''hi'', StartTime = f64_lit (105 / 1000), EndTime = f64_lit (605 / 1000)\<rparr>"
  let ?fs1 = "no_files(''./cache/BcutASR_a.mp3abcde.json'' \<mapsto> Content ''s'')"
  have h: "UseCache ?b" "[?seg] \<noteq> []" "cache_writable example_env"
    "unmarshal_segments example_lib (marshal_segments example_lib [?seg]) = Some [?seg]"
    by (simp_all add: example_defs)
  from C8_cache_idempotent [of ?b example_lib no_files _ example_env True "[?seg]" ?fs1 _ ?b stub_env True]
    GetResult_example h
  have "GetResult example_lib stub_env True ?b ?fs1 = (Inr [?seg], ?fs1, [ECallback 100])"
    by simp
  then show ?thesis using GetResult_example by simp
qed

text \<open>
  C9. In every run of \<open>GetResult\<close> (the successful ones among them) the percentages given
  to the callback never decrease. During the poll the callback is called only in
  iterations whose index \<open>j\<close> is a multiple of 5, in increasing order of \<open>j\<close>, with the
  value \<open>60 + floor (j / MaxRetries * 39)\<close> capped at 99: the float64 computation of the
  code gives exactly this integer for every \<open>j < MaxRetries\<close>.
\<close>

theorem C9_progress_monotone:
  "sorted (callbacks (snd (snd (GetResult L E callback b fs))))
   \<and> (\<exists>js. callbacks (snd (queryResult L E callback b tr))
            = callbacks tr
              @ map (\<lambda>j. min 99 (60 + \<lfloor>rat_of_nat j / rat_of_nat MaxRetries * 39\<rfloor>)) js
          \<and> sorted_wrt (<) js \<and> (\<forall>j \<in> set js. j < MaxRetries \<and> j mod 5 = 0))"
proof -
  obtain res tr' where r: "queryResult_loop L E callback b 0 tr = (res, tr')"
    by (cases "queryResult_loop L E callback b 0 tr")
  from loop_callbacks [OF r] obtain js where js:
    "callbacks tr' = callbacks tr @ map progress_of js" "sorted_wrt (<) js"
    "\<forall>j \<in> set js. j < MaxRetries \<and> j mod 5 = 0"
    by blast
  have "progress_of j = min 99 (60 + \<lfloor>rat_of_nat j / rat_of_nat MaxRetries * 39\<rfloor>)"
    if "j \<in> set js" for j
  proof -
    have j: "j < 500" using that js(3) by (simp add: MaxRetries_def)
    have "progress_of j = 60 + \<lfloor>rat_of_nat j / rat_of_nat MaxRetries * 39\<rfloor>"
      "\<lfloor>rat_of_nat j / rat_of_nat MaxRetries * 39\<rfloor> < 39"
      unfolding floor_progress using div_39_500 [OF j] progress_of_eq [OF j] by simp_all
    then show ?thesis by linarith
  qed
  then have "map progress_of js
      = map (\<lambda>j. min 99 (60 + \<lfloor>rat_of_nat j / rat_of_nat MaxRetries * 39\<rfloor>)) js"
    by (intro map_cong) simp_all
  then have "\<exists>js. callbacks (snd (queryResult L E callback b tr))
            = callbacks tr
              @ map (\<lambda>j. min 99 (60 + \<lfloor>rat_of_nat j / rat_of_nat MaxRetries * 39\<rfloor>)) js
          \<and> sorted_wrt (<) js \<and> (\<forall>j \<in> set js. j < MaxRetries \<and> j mod 5 = 0)"
    using js r by (intro exI [of _ js]) (simp add: queryResult_def)
  then show ?thesis
    using GetResult_callbacks_sorted by blast
qed

theorem C9_progress_monotone_witness:
  "sorted (callbacks (snd (snd
      (GetResult example_lib example_env True (NewBcutASR ''a.mp3'' ''abcde'' True) no_files))))
   \<and> callbacks (snd (snd
      (GetResult example_lib example_env True (NewBcutASR ''a.mp3'' ''abcde'' True) no_files)))
     = [20, 50, 60, 60, 100]"
proof -
  have p: "progress_of 0 = 60"
    using progress_of_eq [of 0] by simp
  from C9_progress_monotone [of example_lib example_env True "NewBcutASR ''a.mp3'' ''abcde'' True" no_files]
  have "sorted (callbacks (snd (snd
      (GetResult example_lib example_env True (NewBcutASR ''a.mp3'' ''abcde'' True) no_files))))"
    by blast
  then show ?thesis
    by (simp add: GetResult_example p)
qed

end
